theory Spec2Isabelle
  imports Main
begin

section \<open>JavaScript strings\<close>

text \<open>
  A JavaScript string is a sequence of UTF-16 code units. The model uses \<open>string\<close>
  (a list of 8-bit characters), read as the code units below 256. The link counters and
  the dash lengths of the program are taken from the non-negative integers; how a
  Number rounds and prints is written out in the section on numbers. A counter grows
  by one for each link, and the sum is exact below \<open>2^53\<close>: the theorems on the value of
  a counter keep it there.
\<close>

text \<open>An optional or empty string is falsy: \<open>if (this.title)\<close>.\<close>

fun truthy :: "string option \<Rightarrow> bool" where
  "truthy None = False"
| "truthy (Some s) = (s \<noteq> [])"

text \<open>\<open>x || ''\<close> for an optional string.\<close>

fun or_empty :: "string option \<Rightarrow> string" where
  "or_empty None = []"
| "or_empty (Some s) = s"

text \<open>
  White space of \<open>String.prototype.trim\<close> and of the regular-expression class \<open>\s\<close>
  (tab, line feed, vertical tab, form feed, carriage return, space, no-break space),
  and the line terminators that the regular-expression dot does not match.
\<close>

definition is_ws :: "char \<Rightarrow> bool" where
  "is_ws c = (c \<in> set [CHR 0x09, CHR 0x0A, CHR 0x0B, CHR 0x0C, CHR 0x0D, CHR 0x20, CHR 0xA0])"

definition is_line_terminator :: "char \<Rightarrow> bool" where
  "is_line_terminator c = (c \<in> set [CHR 0x0A, CHR 0x0D])"

definition trim :: "string \<Rightarrow> string" where
  "trim s = rev (dropWhile is_ws (rev (dropWhile is_ws s)))"

text \<open>\<open>Array.prototype.join\<close>.\<close>

fun join :: "string \<Rightarrow> string list \<Rightarrow> string" where
  "join sep [] = []"
| "join sep [x] = x"
| "join sep (x # y # ys) = x @ sep @ join sep (y # ys)"

text \<open>\<open>String.prototype.split\<close> with a one-character separator.\<close>

fun split_char :: "char \<Rightarrow> string \<Rightarrow> string list" where
  "split_char d [] = [[]]"
| "split_char d (c # cs) =
     (if c = d then [] # split_char d cs
      else (case split_char d cs of
              [] \<Rightarrow> [[c]]
            | x # xs \<Rightarrow> (c # x) # xs))"

text \<open>The decimal digits of a natural number.\<close>

fun show_nat :: "nat \<Rightarrow> string" where
  "show_nat n =
     (if n < 10 then [''0123456789'' ! n]
      else show_nat (n div 10) @ [''0123456789'' ! (n mod 10)])"

section \<open>Numbers\<close>

text \<open>
  A Number is an IEEE 754 double. A natural number \<open>n\<close> of the model stands for the
  Number that the mathematical value \<open>n\<close> rounds to: the nearest double, a tie going to
  the one with the even significand, and \<open>Infinity\<close> from \<open>2^1024 - 2^970\<close> on. A
  natural number of at most 53 binary digits is a double; one of more than 1024 binary
  digits stands for \<open>Infinity\<close>.
\<close>

fun bit_length :: "nat \<Rightarrow> nat" where
  "bit_length n = (if n = 0 then 0 else Suc (bit_length (n div 2)))"

declare bit_length.simps [simp del]

definition round_double :: "nat \<Rightarrow> nat" where
  "round_double n =
     (if bit_length n \<le> 53 then n
      else (let e = bit_length n - 53;
                q = n div 2 ^ e;
                r = n mod 2 ^ e;
                h = 2 ^ (e - 1)
            in if r < h \<or> (r = h \<and> even q) then q * 2 ^ e else (q + 1) * 2 ^ e))"

text \<open>The Number of a mathematical value; \<open>2^1024\<close> stands for \<open>Infinity\<close>.\<close>

definition to_number :: "nat \<Rightarrow> nat" where
  "to_number n = (let x = round_double n in if 1024 < bit_length x then 2 ^ 1024 else x)"

text \<open>
  \<open>Number::toString\<close>, which a template literal and string concatenation apply to a
  Number. It prints the shortest decimal digits that round to the Number (of several
  candidates with as few digits the nearest, of two as near the even one), followed by
  zeros when the value is below \<open>10^21\<close> and in exponent form from there on.
  \<open>rounding_candidates x p\<close> are the multiples of the power of ten \<open>p\<close> next to \<open>x\<close>
  that round to \<open>x\<close>; \<open>search_digits\<close> tries the powers of ten from the largest down.
\<close>

definition rounding_candidates :: "nat \<Rightarrow> nat \<Rightarrow> nat list" where
  "rounding_candidates x p = filter (\<lambda>v. round_double v = x) [(x div p) * p, (x div p) * p + p]"

definition nearest :: "nat \<Rightarrow> nat \<Rightarrow> nat list \<Rightarrow> nat option" where
  "nearest x p vs =
     (case vs of
        [] \<Rightarrow> None
      | [v] \<Rightarrow> Some v
      | a # b # _ \<Rightarrow>
          Some (if x - a < b - x then a
                else if b - x < x - a then b
                else if even (a div p) then a else b))"

primrec search_digits :: "nat \<Rightarrow> nat \<Rightarrow> nat" where
  "search_digits x 0 = x"
| "search_digits x (Suc j) =
     (case nearest x (10 ^ Suc j) (rounding_candidates x (10 ^ Suc j)) of
        Some v \<Rightarrow> v
      | None \<Rightarrow> search_digits x j)"

definition shortest :: "nat \<Rightarrow> nat" where
  "shortest x = search_digits x (length (show_nat x) - 1)"

definition number_text :: "nat \<Rightarrow> string" where
  "number_text n =
     (let x = round_double n
      in if 1024 < bit_length x then ''Infinity''
         else if bit_length x \<le> 53 then show_nat x
         else (let digits = show_nat (shortest x)
               in if length digits \<le> 21 then digits
                  else (let significant = rev (dropWhile (\<lambda>c. c = CHR ''0'') (rev digits))
                        in (if length significant = 1 then significant
                            else hd significant # CHR ''.'' # tl significant)
                           @ ''e+'' @ show_nat (length digits - 1))))"

definition starts_with :: "string \<Rightarrow> string \<Rightarrow> bool" where
  "starts_with p s = (take (length p) s = p)"

definition ends_with :: "string \<Rightarrow> string \<Rightarrow> bool" where
  "ends_with p s = (length p \<le> length s \<and> drop (length s - length p) s = p)"

text \<open>
  \<open>String.prototype.replace\<close> with a string pattern: the first occurrence only, and
  the replacement text is a template in which \<open>$$\<close> stands for a dollar sign, \<open>$&\<close> for
  the matched text, \<open>$`\<close> for the text before the match and \<open>$'\<close> for the text after
  it. A string pattern has no capture groups, so \<open>$1\<close> and the like stay as they are.
\<close>

fun find_first :: "string \<Rightarrow> string \<Rightarrow> (string \<times> string) option" where
  "find_first pat [] = (if pat = [] then Some ([], []) else None)"
| "find_first pat (c # cs) =
     (if starts_with pat (c # cs) then Some ([], drop (length pat) (c # cs))
      else (case find_first pat cs of
              None \<Rightarrow> None
            | Some (before, after) \<Rightarrow> Some (c # before, after)))"

fun get_substitution :: "string \<Rightarrow> string \<Rightarrow> string \<Rightarrow> string \<Rightarrow> string" where
  "get_substitution matched before after [] = []"
| "get_substitution matched before after [c] = [c]"
| "get_substitution matched before after (c # d # r) =
     (if c = CHR ''$'' \<and> d = CHR ''$'' then CHR ''$'' # get_substitution matched before after r
      else if c = CHR ''$'' \<and> d = CHR ''&'' then matched @ get_substitution matched before after r
      else if c = CHR ''$'' \<and> d = CHR 0x60 then before @ get_substitution matched before after r
      else if c = CHR ''$'' \<and> d = CHR 0x27 then after @ get_substitution matched before after r
      else c # get_substitution matched before after (d # r))"

definition replace_first :: "string \<Rightarrow> string \<Rightarrow> string \<Rightarrow> string" where
  "replace_first pat repl s =
     (case find_first pat s of
        None \<Rightarrow> s
      | Some (before, after) \<Rightarrow> before @ get_substitution pat before after repl @ after)"

section \<open>Enumerations\<close>

datatype ChartDir = LR | TD | TB | RL | BT

fun ChartDir_str :: "ChartDir \<Rightarrow> string" where
  "ChartDir_str LR = ''LR''"
| "ChartDir_str TD = ''TD''"
| "ChartDir_str TB = ''TB''"
| "ChartDir_str RL = ''RL''"
| "ChartDir_str BT = ''BT''"

datatype NodeShape =
  RECT_ROUND | STADIUM | SUBROUTINE | CYLINDER | CIRCLE | ASSYMETRIC | RHOMBUS | HEXAGON

fun NodeShape_str :: "NodeShape \<Rightarrow> string" where
  "NodeShape_str RECT_ROUND = ''(VAL)''"
| "NodeShape_str STADIUM = ''([VAL])''"
| "NodeShape_str SUBROUTINE = ''[[VAL]]''"
| "NodeShape_str CYLINDER = ''[(VAL)]''"
| "NodeShape_str CIRCLE = ''((VAL))''"
| "NodeShape_str ASSYMETRIC = ''>VAL]''"
| "NodeShape_str RHOMBUS = ''{VAL}''"
| "NodeShape_str HEXAGON = ''{{VAL}}''"

datatype LinkType = ARROW | OPEN | INVISIBLE

fun LinkType_str :: "LinkType \<Rightarrow> string" where
  "LinkType_str ARROW = ''-->''"
| "LinkType_str OPEN = ''---''"
| "LinkType_str INVISIBLE = ''~~~''"

section \<open>Styles, nodes and links\<close>

text \<open>\<open>strokeDasharray?: string | number[]\<close>; the numbers are taken as naturals.\<close>

datatype DashArray = DashText string | DashNumbers "nat list"

record NodeStyle =
  ns_fill :: "string option"
  ns_stroke :: "string option"
  ns_strokeWidth :: "string option"
  ns_color :: "string option"
  ns_strokeDasharray :: "DashArray option"

text \<open>One \<open>if (this.x) result.push(`key:${this.x}`)\<close> of the \<open>toString\<close> methods.\<close>

definition push_attr :: "string \<Rightarrow> string option \<Rightarrow> string list \<Rightarrow> string list" where
  "push_attr key v result = (if truthy v then result @ [key @ '':'' @ or_empty v] else result)"

definition push_dasharray :: "DashArray option \<Rightarrow> string list \<Rightarrow> string list" where
  "push_dasharray d result =
     (case d of
        None \<Rightarrow> result
      | Some (DashNumbers ns) \<Rightarrow> result @ [''stroke-dasharray:'' @ join '' '' (map number_text ns)]
      | Some (DashText s) \<Rightarrow> (if s = [] then result else result @ [''stroke-dasharray:'' @ s]))"

definition NodeStyle_toString :: "NodeStyle \<Rightarrow> string" where
  "NodeStyle_toString s =
     join '','' (push_dasharray (ns_strokeDasharray s)
       (push_attr ''color'' (ns_color s)
       (push_attr ''stroke-width'' (ns_strokeWidth s)
       (push_attr ''stroke'' (ns_stroke s)
       (push_attr ''fill'' (ns_fill s) [])))))"

record ChartNode =
  title :: string
  shape :: NodeShape
  node_id :: string
  className :: "string option"

text \<open>The identifier alphabet \<open>[a-zA-Z0-9\-_!#$]\<close>.\<close>

definition is_alnum :: "char \<Rightarrow> bool" where
  "is_alnum c = (c \<in> set ''abcdefghijklmnopqrstuvwxyzABCDEFGHIJKLMNOPQRSTUVWXYZ0123456789'')"

definition is_id_char :: "char \<Rightarrow> bool" where
  "is_id_char c = (is_alnum c \<or> c \<in> set ''-_!#$'')"

text \<open>
  \<open>ensureId\<close> writes the field \<open>id\<close> of the node; the model returns the node after
  the call. \<open>getId\<close> and \<open>toString\<close> return their value together with that node.
\<close>

definition ensureId :: "ChartNode \<Rightarrow> ChartNode" where
  "ensureId n =
     (if node_id n = [] \<and> title n \<noteq> [] then n\<lparr>node_id := filter is_id_char (title n)\<rparr>
      else n)"

definition getId :: "ChartNode \<Rightarrow> string \<times> ChartNode" where
  "getId n = (let n' = ensureId n in (node_id n', n'))"

definition ChartNode_toString :: "ChartNode \<Rightarrow> string \<times> ChartNode" where
  "ChartNode_toString n =
     (let n' = ensureId n;
          classNameSuffix = (if truthy (className n') then '':::'' @ or_empty (className n') else [])
      in (node_id n' @ replace_first ''VAL'' (title n') (NodeShape_str (shape n')) @ classNameSuffix,
          n'))"

record LinkStyle =
  ls_stroke :: "string option"
  ls_strokeWidth :: "string option"
  ls_color :: "string option"

definition LinkStyle_toString :: "LinkStyle \<Rightarrow> string" where
  "LinkStyle_toString s =
     join '','' (push_attr ''color'' (ls_color s)
       (push_attr ''stroke-width'' (ls_strokeWidth s)
       (push_attr ''stroke'' (ls_stroke s) [])))"

text \<open>\<open>string | ChartNode\<close> and \<open>string | LinkStyle\<close>.\<close>

datatype NodeRef = Id string | Node ChartNode

datatype StyleValue = StyleText string | StyleObject LinkStyle

fun NodeRef_id :: "NodeRef \<Rightarrow> string" where
  "NodeRef_id (Id s) = s"
| "NodeRef_id (Node n) = fst (getId n)"

fun StyleValue_str :: "StyleValue \<Rightarrow> string" where
  "StyleValue_str (StyleText s) = s"
| "StyleValue_str (StyleObject s) = LinkStyle_toString s"

record Link =
  src :: NodeRef
  dest :: NodeRef
  link_text :: "string option"
  link_type :: LinkType
  style :: "StyleValue option"

text \<open>\<open>if (link.style)\<close>: an object is truthy, a string is truthy unless empty.\<close>

fun has_style :: "StyleValue option \<Rightarrow> bool" where
  "has_style None = False"
| "has_style (Some (StyleText s)) = (s \<noteq> [])"
| "has_style (Some (StyleObject s)) = True"

definition Link_toString :: "Link \<Rightarrow> string" where
  "Link_toString l =
     (let srcId = NodeRef_id (src l);
          destId = NodeRef_id (dest l);
          linkText = (if truthy (link_text l) then ''|'' @ or_empty (link_text l) @ ''|'' else [])
      in srcId @ '' '' @ LinkType_str (link_type l) @ '' '' @ linkText @ destId)"

definition printStyle :: "Link \<Rightarrow> nat \<Rightarrow> string" where
  "printStyle l linkCount =
     (case style l of
        None \<Rightarrow> []
      | Some v \<Rightarrow>
          (if \<not> has_style (Some v) then []
           else ''linkStyle '' @ number_text linkCount @ '' '' @ StyleValue_str v @ '';''))"

section \<open>Class definitions and attachments\<close>

datatype ClassNames = ClassName string | ClassNameList "string list"

datatype ClassStyle = ClassStyleText string | ClassStyleObject NodeStyle

record ClassDef =
  classNames :: ClassNames
  cd_style :: ClassStyle

definition ClassDef_toString :: "ClassDef \<Rightarrow> string" where
  "ClassDef_toString d =
     ''classDef '' @
     (case classNames d of ClassName s \<Rightarrow> s | ClassNameList ss \<Rightarrow> join '','' ss) @
     '' '' @
     (case cd_style d of ClassStyleText s \<Rightarrow> s | ClassStyleObject s \<Rightarrow> NodeStyle_toString s)"

datatype AttachNodes = OneId string | OneNode ChartNode | ManyNodes "NodeRef list"

record ClassAttachment =
  ca_nodes :: AttachNodes
  ca_className :: string

definition ClassAttachment_toString :: "ClassAttachment \<Rightarrow> string" where
  "ClassAttachment_toString a =
     (let nodesArray =
            (case ca_nodes a of
               OneId s \<Rightarrow> [s]
             | OneNode n \<Rightarrow> [fst (getId n)]
             | ManyNodes ns \<Rightarrow> map NodeRef_id ns)
      in ''class '' @ join '','' nodesArray @ '' '' @ ca_className a @ '';'')"

section \<open>Containers\<close>

text \<open>
  The position of a positional override is a Number (\<open>[number, string | LinkStyle]\<close>).
  \<open>Index n\<close> is the Number of the natural number \<open>n\<close>, as in the section on numbers;
  \<open>NotIndex s\<close> is any other Number (a negative one, a fraction, \<open>NaN\<close>), kept by the
  text \<open>s\<close> that a template literal prints for it. The parser gives positions of the
  first kind only.
\<close>

datatype LinkPosition = Index nat | NotIndex string

fun position_text :: "LinkPosition \<Rightarrow> string" where
  "position_text (Index n) = number_text n"
| "position_text (NotIndex s) = s"

text \<open>
  \<open>Chart\<close> and its subclass \<open>Subgraph\<close> are one datatype: \<open>sg_id\<close> is the field
  \<open>id\<close> that \<open>Subgraph\<close> adds (unused by \<open>Chart.print\<close>). The type parameter is the
  representation of a link: a \<open>Link\<close> value in a finished tree, a reference into the
  parser's link table while the parser runs.
\<close>

datatype 'l chart =
  Chart
    (c_title: "string option")
    (direction: ChartDir)
    (nodes: "ChartNode list")
    (links: "'l list")
    (subgraphs: "'l chart list")
    (classDefs: "ClassDef list")
    (classAttachments: "ClassAttachment list")
    (positionalLinkStyles: "(LinkPosition \<times> StyleValue) list")
    (sg_id: "string option")

text \<open>\<open>new Chart(title, direction)\<close> and \<open>new Subgraph(title, direction)\<close>.\<close>

definition new_Chart :: "string option \<Rightarrow> ChartDir \<Rightarrow> 'l chart" where
  "new_Chart t d = Chart t d [] [] [] [] [] [] None"

text \<open>The construction API; each call returns the container.\<close>

fun addNode :: "ChartNode \<Rightarrow> 'l chart \<Rightarrow> 'l chart" where
  "addNode n (Chart t d ns ls sgs cds cas pls i) = Chart t d (ns @ [n]) ls sgs cds cas pls i"

fun addLink :: "'l \<Rightarrow> 'l chart \<Rightarrow> 'l chart" where
  "addLink l (Chart t d ns ls sgs cds cas pls i) = Chart t d ns (ls @ [l]) sgs cds cas pls i"

fun addSubgraph :: "'l chart \<Rightarrow> 'l chart \<Rightarrow> 'l chart" where
  "addSubgraph s (Chart t d ns ls sgs cds cas pls i) = Chart t d ns ls (sgs @ [s]) cds cas pls i"

fun addClassDef :: "ClassDef \<Rightarrow> 'l chart \<Rightarrow> 'l chart" where
  "addClassDef c (Chart t d ns ls sgs cds cas pls i) = Chart t d ns ls sgs (cds @ [c]) cas pls i"

fun attachClass :: "AttachNodes \<Rightarrow> string \<Rightarrow> 'l chart \<Rightarrow> 'l chart" where
  "attachClass n c (Chart t d ns ls sgs cds cas pls i) =
     Chart t d ns ls sgs cds (cas @ [\<lparr>ca_nodes = n, ca_className = c\<rparr>]) pls i"

text \<open>\<open>addLinkStyle\<close> with a number: a positional override.\<close>

fun addLinkStyle :: "LinkPosition \<Rightarrow> StyleValue \<Rightarrow> 'l chart \<Rightarrow> 'l chart" where
  "addLinkStyle k s (Chart t d ns ls sgs cds cas pls i) =
     Chart t d ns ls sgs cds cas (pls @ [(k, s)]) i"

definition addLinkBetween :: "NodeRef \<Rightarrow> NodeRef \<Rightarrow> string option \<Rightarrow> Link chart \<Rightarrow> Link chart" where
  "addLinkBetween s d t c =
     addLink \<lparr>src = Id (NodeRef_id s), dest = Id (NodeRef_id d), link_text = t,
              link_type = ARROW, style = None\<rparr> c"

section \<open>Serializer\<close>

text \<open>
  The serializer's only writes are the identifier caches of nodes and sub-groupings,
  which do not change what an unchanged tree prints; the model returns the text and the
  counters. \<open>Math.floor(Math.random() * 1000000)\<close> is the sequence \<open>rnd\<close>, of which
  \<open>k\<close> values have been drawn.
\<close>

text \<open>The body of the loop over \<open>this.links\<close> in \<open>printBody\<close>.\<close>

definition print_link :: "string \<Rightarrow> Link \<Rightarrow> string list \<times> nat \<Rightarrow> string list \<times> nat" where
  "print_link indent link acc =
     (let result = fst acc; currentLinkCount = snd acc;
          result = result @ [indent @ Link_toString link];
          result = (if has_style (style link)
                    then result @ [indent @ printStyle link currentLinkCount]
                    else result)
      in (result, currentLinkCount + 1))"

definition print_positional :: "string \<Rightarrow> LinkPosition \<times> StyleValue \<Rightarrow> string" where
  "print_positional indent p =
     indent @ ''linkStyle '' @ position_text (fst p) @ '' '' @ StyleValue_str (snd p) @ '';''"

text \<open>\<open>Subgraph.getId\<close>, with the number of random values drawn so far.\<close>

definition Subgraph_getId :: "(nat \<Rightarrow> nat) \<Rightarrow> nat \<Rightarrow> Link chart \<Rightarrow> string \<times> nat" where
  "Subgraph_getId rnd k s =
     (if truthy (sg_id s) then (or_empty (sg_id s), k)
      else if truthy (c_title s)
        then (filter (\<lambda>c. is_alnum c \<or> c \<in> set ''-_'') (or_empty (c_title s)), k)
      else (''subgraph'' @ show_nat (rnd k), k + 1))"

lemma size_subgraphs: "size_list size (subgraphs c) < size c"
  by (cases c) simp

function printBody :: "(nat \<Rightarrow> nat) \<Rightarrow> string \<Rightarrow> nat \<Rightarrow> nat \<Rightarrow> Link chart \<Rightarrow> string \<times> nat \<times> nat"
  and Subgraph_print :: "(nat \<Rightarrow> nat) \<Rightarrow> string \<Rightarrow> nat \<Rightarrow> nat \<Rightarrow> Link chart \<Rightarrow> string \<times> nat \<times> nat"
  and print_subgraphs ::
    "(nat \<Rightarrow> nat) \<Rightarrow> string \<Rightarrow> Link chart list \<Rightarrow> string list \<times> nat \<times> nat \<Rightarrow> string list \<times> nat \<times> nat"
where
  "printBody rnd indent linkCount k c =
     (let result = map (\<lambda>node. indent @ fst (ChartNode_toString node)) (nodes c);
          (result, currentLinkCount) = fold (print_link indent) (links c) (result, linkCount);
          (result, currentLinkCount, k) =
             print_subgraphs rnd indent (subgraphs c) (result, currentLinkCount, k);
          result = result @ map (\<lambda>classDef. indent @ ClassDef_toString classDef) (classDefs c);
          result = result @ map (\<lambda>a. indent @ ClassAttachment_toString a) (classAttachments c);
          result = result @ map (print_positional indent) (positionalLinkStyles c)
      in (join [CHR 0x0A] result, currentLinkCount, k))"
| "Subgraph_print rnd indent linkCount k s =
     (let (sid, k) = Subgraph_getId rnd k s;
          result = [indent @ ''subgraph '' @ sid @ '' ['' @ or_empty (c_title s) @ '']'',
                    indent @ ''  direction '' @ ChartDir_str (direction s)];
          (text, nextLinkCount, k) = printBody rnd (indent @ ''  '') linkCount k s;
          result = result @ [text];
          result = result @ [indent @ ''end'']
      in (join [CHR 0x0A] result, nextLinkCount, k))"
| "print_subgraphs rnd indent [] (result, currentLinkCount, k) = (result, currentLinkCount, k)"
| "print_subgraphs rnd indent (subgraph # rest) (result, currentLinkCount, k) =
     (let (text, nextLinkCount, k) = Subgraph_print rnd indent currentLinkCount k subgraph
      in print_subgraphs rnd indent rest (result @ [text], nextLinkCount, k))"
  by pat_completeness auto

termination
  by (relation "measure (\<lambda>x. case x of
          Inl (_, _, _, _, c) \<Rightarrow> 2 * size c + 1
        | Inr (Inl (_, _, _, _, s)) \<Rightarrow> 2 * size s + 2
        | Inr (Inr (_, _, ss, _, _, _)) \<Rightarrow> 2 * size_list size ss + 1)")
     (auto simp: less_imp_le [OF size_subgraphs] intro: le_less_trans [OF _ size_subgraphs])

text \<open>\<open>Chart.print\<close> and \<open>Chart.toString\<close>.\<close>

definition Chart_print :: "(nat \<Rightarrow> nat) \<Rightarrow> string \<Rightarrow> nat \<Rightarrow> nat \<Rightarrow> Link chart \<Rightarrow> string \<times> nat \<times> nat" where
  "Chart_print rnd indent linkCount k c =
     (let result = (if truthy (c_title c)
                    then [indent @ ''---'', indent @ ''title: '' @ or_empty (c_title c), indent @ ''---'']
                    else []);
          result = result @ [indent @ ''flowchart '' @ ChartDir_str (direction c)];
          (text, nextLinkCount, k) = printBody rnd (indent @ ''  '') linkCount k c;
          result = result @ [text];
          result = result @ [[]]
      in (join [CHR 0x0A] result, nextLinkCount, k))"

definition Chart_toString :: "(nat \<Rightarrow> nat) \<Rightarrow> Link chart \<Rightarrow> string" where
  "Chart_toString rnd c = fst (Chart_print rnd [] 0 0 c)"

section \<open>Parser: the regular expressions\<close>

text \<open>
  Each regular expression of the parser is a function from the line to its capture
  groups. The parser applies them to trimmed lines only, which never end in white
  space; on those the functions return what the backtracking matcher returns. A greedy
  \<open>\s+\<close> or \<open>[^\s]+\<close> is followed by a pattern that cannot start with a character of
  the class, so it takes the whole run; \<open>(.+)$\<close> takes the rest of the line and fails on
  a line terminator.
\<close>

definition is_digit :: "char \<Rightarrow> bool" where
  "is_digit c = (c \<in> set ''0123456789'')"

definition no_line_terminator :: "string \<Rightarrow> bool" where
  "no_line_terminator s = (filter is_line_terminator s = [])"

text \<open>\<open>\s+\<close> at the start of the text: the text after the white space.\<close>

definition skip_ws1 :: "string \<Rightarrow> string option" where
  "skip_ws1 s = (case s of [] \<Rightarrow> None | c # cs \<Rightarrow> if is_ws c then Some (dropWhile is_ws cs) else None)"

text \<open>\<open>(LR|TD|TB|RL|BT)$\<close>\<close>

definition match_dir :: "string \<Rightarrow> ChartDir option" where
  "match_dir s =
     (if s = ''LR'' then Some LR else if s = ''TD'' then Some TD else if s = ''TB'' then Some TB
      else if s = ''RL'' then Some RL else if s = ''BT'' then Some BT else None)"

text \<open>\<open>/^flowchart\s+(LR|TD|TB|RL|BT)$/\<close> and \<open>/^direction\s+(LR|TD|TB|RL|BT)$/\<close>\<close>

definition match_keyword_dir :: "string \<Rightarrow> string \<Rightarrow> ChartDir option" where
  "match_keyword_dir keyword line =
     (if starts_with keyword line
      then (case skip_ws1 (drop (length keyword) line) of
              None \<Rightarrow> None
            | Some r \<Rightarrow> match_dir r)
      else None)"

definition match_header :: "string \<Rightarrow> ChartDir option" where
  "match_header line = match_keyword_dir ''flowchart'' line"

definition match_direction :: "string \<Rightarrow> ChartDir option" where
  "match_direction line = match_keyword_dir ''direction'' line"

text \<open>\<open>/^title:\s*(.*)$/\<close>\<close>

definition match_title :: "string \<Rightarrow> string option" where
  "match_title line =
     (if starts_with ''title:'' line
      then (let r = dropWhile is_ws (drop 6 line)
            in if no_line_terminator r then Some r else None)
      else None)"

text \<open>
  \<open>/^subgraph\s+([^\s\[]+)\s*(?:\[(.*)\])?$/\<close>: the identifier and, when the bracket
  group took part in the match, the text between the first bracket and the last.
\<close>

definition match_subgraph :: "string \<Rightarrow> (string \<times> string option) option" where
  "match_subgraph line =
     (if starts_with ''subgraph'' line
      then (case skip_ws1 (drop 8 line) of
              None \<Rightarrow> None
            | Some r1 \<Rightarrow>
                (let sid = takeWhile (\<lambda>c. \<not> is_ws c \<and> c \<noteq> CHR ''['') r1;
                     r2 = dropWhile is_ws (drop (length sid) r1)
                 in if sid = [] then None
                    else if r2 = [] then Some (sid, None)
                    else if 2 \<le> length r2 \<and> hd r2 = CHR ''['' \<and> last r2 = CHR '']''
                            \<and> no_line_terminator (butlast (tl r2))
                      then Some (sid, Some (butlast (tl r2)))
                    else None))
      else None)"

text \<open>\<open>/^classDef\s+([^\s]+)\s+(.+)$/\<close>\<close>

definition match_classDef :: "string \<Rightarrow> (string \<times> string) option" where
  "match_classDef line =
     (if starts_with ''classDef'' line
      then (case skip_ws1 (drop 8 line) of
              None \<Rightarrow> None
            | Some r1 \<Rightarrow>
                (let names = takeWhile (\<lambda>c. \<not> is_ws c) r1
                 in if names = [] then None
                    else (case skip_ws1 (drop (length names) r1) of
                            None \<Rightarrow> None
                          | Some r3 \<Rightarrow>
                              if r3 \<noteq> [] \<and> no_line_terminator r3 then Some (names, r3)
                              else None)))
      else None)"

text \<open>\<open>/^class\s+([^\s]+)\s+([^\s;]+);?$/\<close>\<close>

definition match_classAttachment :: "string \<Rightarrow> (string \<times> string) option" where
  "match_classAttachment line =
     (if starts_with ''class'' line
      then (case skip_ws1 (drop 5 line) of
              None \<Rightarrow> None
            | Some r1 \<Rightarrow>
                (let ns = takeWhile (\<lambda>c. \<not> is_ws c) r1
                 in if ns = [] then None
                    else (case skip_ws1 (drop (length ns) r1) of
                            None \<Rightarrow> None
                          | Some r3 \<Rightarrow>
                              (let cls = takeWhile (\<lambda>c. \<not> is_ws c \<and> c \<noteq> CHR '';'') r3;
                                   r4 = drop (length cls) r3
                               in if cls \<noteq> [] \<and> (r4 = [] \<or> r4 = '';'') then Some (ns, cls)
                                  else None))))
      else None)"

text \<open>\<open>/^linkStyle\s+(\d+)\s+(.+);?$/\<close>: the greedy \<open>(.+)\<close> takes a final semicolon too.\<close>

definition match_linkStyle :: "string \<Rightarrow> (string \<times> string) option" where
  "match_linkStyle line =
     (if starts_with ''linkStyle'' line
      then (case skip_ws1 (drop 9 line) of
              None \<Rightarrow> None
            | Some r1 \<Rightarrow>
                (let digits = takeWhile is_digit r1
                 in if digits = [] then None
                    else (case skip_ws1 (drop (length digits) r1) of
                            None \<Rightarrow> None
                          | Some r3 \<Rightarrow>
                              if r3 \<noteq> [] \<and> no_line_terminator r3 then Some (digits, r3)
                              else None)))
      else None)"

text \<open>\<open>(-->|---|~~~)\<close>\<close>

definition match_link_type :: "string \<Rightarrow> LinkType option" where
  "match_link_type s =
     (if starts_with ''-->'' s then Some ARROW
      else if starts_with ''---'' s then Some OPEN
      else if starts_with ''~~~'' s then Some INVISIBLE
      else None)"

text \<open>
  \<open>\s*(?:\|([^|]+)\|)?\s*([^\s]+)$\<close>, the tail of the link expression: the label group
  is tried first; when the match cannot be completed with it, the group is skipped and
  the destination must be the whole tail.
\<close>

definition match_link_tail :: "string \<Rightarrow> (string option \<times> string) option" where
  "match_link_tail r =
     (let r1 = dropWhile is_ws r;
          with_label =
            (case r1 of
               [] \<Rightarrow> None
             | c # t \<Rightarrow>
                 if c = CHR ''|''
                 then (let label = takeWhile (\<lambda>c. c \<noteq> CHR ''|'') t;
                           t' = drop (length label) t
                       in if label \<noteq> [] \<and> t' \<noteq> []
                          then (let d = dropWhile is_ws (tl t')
                                in if d \<noteq> [] \<and> filter is_ws d = [] then Some (Some label, d)
                                   else None)
                          else None)
                 else None)
      in case with_label of
           Some m \<Rightarrow> Some m
         | None \<Rightarrow> if r1 \<noteq> [] \<and> filter is_ws r1 = [] then Some (None, r1) else None)"

text \<open>\<open>/^([^\s]+)\s+(-->|---|~~~)\s*(?:\|([^|]+)\|)?\s*([^\s]+)$/\<close>\<close>

definition match_link :: "string \<Rightarrow> (string \<times> LinkType \<times> string option \<times> string) option" where
  "match_link line =
     (let s = takeWhile (\<lambda>c. \<not> is_ws c) line
      in if s = [] then None
         else (case skip_ws1 (drop (length s) line) of
                 None \<Rightarrow> None
               | Some r \<Rightarrow>
                   (case match_link_type r of
                      None \<Rightarrow> None
                    | Some ty \<Rightarrow>
                        (case match_link_tail (drop 3 r) of
                           None \<Rightarrow> None
                         | Some (label, d) \<Rightarrow> Some (s, ty, label, d)))))"

text \<open>\<open>String.prototype.lastIndexOf\<close>\<close>

fun lastIndexOf :: "string \<Rightarrow> string \<Rightarrow> nat option" where
  "lastIndexOf pat [] = (if pat = [] then Some 0 else None)"
| "lastIndexOf pat (c # cs) =
     (case lastIndexOf pat cs of
        Some i \<Rightarrow> Some (Suc i)
      | None \<Rightarrow> if starts_with pat (c # cs) then Some 0 else None)"

text \<open>
  \<open>/^([a-zA-Z0-9\-_!#$]+)(.+)$/\<close>: when the whole text is in the identifier alphabet,
  the matcher backtracks and leaves the last character to the second group.
\<close>

definition match_id :: "string \<Rightarrow> (string \<times> string) option" where
  "match_id nodeContent =
     (let run = takeWhile is_id_char nodeContent;
          r = drop (length run) nodeContent
      in if run = [] then None
         else if r = [] then (if 2 \<le> length run then Some (butlast run, [last run]) else None)
         else if no_line_terminator r then Some (run, r)
         else None)"

text \<open>A shape's expression \<open>/^open([\s\S]*)close$/\<close>\<close>

definition match_delimiters :: "string \<Rightarrow> string \<Rightarrow> string \<Rightarrow> string option" where
  "match_delimiters opening closing s =
     (if length opening + length closing \<le> length s \<and> starts_with opening s \<and> ends_with closing s
      then Some (take (length s - length opening - length closing) (drop (length opening) s))
      else None)"

definition shapeCandidates :: "(NodeShape \<times> string \<times> string) list" where
  "shapeCandidates =
     [(HEXAGON, ''{{'', ''}}''),
      (CIRCLE, ''(('', ''))''),
      (SUBROUTINE, ''[['', '']]''),
      (CYLINDER, ''[('', '')]''),
      (STADIUM, ''(['', ''])''),
      (RHOMBUS, ''{'', ''}''),
      (RECT_ROUND, ''('', '')''),
      (ASSYMETRIC, ''>'', '']'')]"

text \<open>The loop over the candidates: the first that matches wins.\<close>

fun match_shapes ::
  "(NodeShape \<times> string \<times> string) list \<Rightarrow> string \<Rightarrow> string \<Rightarrow> string option \<Rightarrow> ChartNode option"
where
  "match_shapes [] rest ident cls = None"
| "match_shapes ((sh, opening, closing) # candidates) rest ident cls =
     (case match_delimiters opening closing rest of
        Some label \<Rightarrow> Some \<lparr>title = label, shape = sh, node_id = ident, className = cls\<rparr>
      | None \<Rightarrow> match_shapes candidates rest ident cls)"

definition parseNodeLine :: "string \<Rightarrow> ChartNode option" where
  "parseNodeLine line =
     (case (case lastIndexOf '':::'' line of
              None \<Rightarrow> Some (line, None)
            | Some classSeparator \<Rightarrow>
                (let cls = trim (drop (classSeparator + 3) line)
                 in if cls = [] then None else Some (take classSeparator line, Some cls)))
      of
        None \<Rightarrow> None
      | Some (nodeContent, cls) \<Rightarrow>
          (case match_id nodeContent of
             None \<Rightarrow> None
           | Some (ident, rest) \<Rightarrow> match_shapes shapeCandidates rest ident cls))"

section \<open>Parser\<close>

datatype parse_error =
    MissingFrontmatterClose
  | MissingFlowchartDeclaration
  | InvalidFlowchartDeclaration string
  | SubgraphMissingDirectionAndBody string
  | SubgraphMissingDirection string
  | SubgraphMissingEnd string
  | UnexpectedEnd
  | UnsupportedLine string

text \<open>
  \<open>ParseState\<close>. The table \<open>linksByIndex\<close> and the containers share the \<open>Link\<close>
  objects: while the parser runs, a container holds the table keys of its links, and
  an assignment to \<open>link.style\<close> is an update of the table.
\<close>

record ParseState =
  nextLinkIndex :: nat
  linksByIndex :: "nat \<rightharpoonup> Link"
  lastParsedLinkIndex :: "nat option"

text \<open>
  The result of \<open>parseChartBody\<close>, with the container and the state as the call
  leaves them.
\<close>

record body_result =
  nextIndex :: nat
  foundEndToken :: bool
  r_chart :: "nat chart"
  r_state :: ParseState

text \<open>\<open>input.replace(/\r\n/g, '\n')\<close>\<close>

fun replace_crlf :: "string \<Rightarrow> string" where
  "replace_crlf [] = []"
| "replace_crlf [c] = [c]"
| "replace_crlf (c # d # r) =
     (if c = CHR 0x0D \<and> d = CHR 0x0A then CHR 0x0A # replace_crlf r
      else c # replace_crlf (d # r))"

text \<open>
  \<open>Number.parseInt(digits, 10)\<close> on a text of decimal digits: the Number of the
  mathematical value of the digits. (From the twenty-first digit on ECMAScript lets an
  implementation read zeros; the engines in use read every digit.)
\<close>

definition digit_value :: "char \<Rightarrow> nat" where
  "digit_value c = length (takeWhile (\<lambda>d. d \<noteq> c) ''0123456789'')"

definition parseInt :: "string \<Rightarrow> nat" where
  "parseInt ds = to_number (foldl (\<lambda>n c. 10 * n + digit_value c) 0 ds)"

text \<open>\<open>.replace(/;$/, '')\<close>\<close>

definition strip_semicolon :: "string \<Rightarrow> string" where
  "strip_semicolon s = (if s \<noteq> [] \<and> last s = CHR '';'' then butlast s else s)"

text \<open>
  The statement a trimmed, non-empty line is, by the first expression that matches it,
  in the order in which \<open>parseChartBody\<close> tries them.
\<close>

datatype statement =
    S_end
  | S_subgraph string "string option"
  | S_classDef string string
  | S_classAttachment string string
  | S_linkStyle string string
  | S_link string LinkType "string option" string
  | S_node ChartNode
  | S_unsupported

definition classify :: "string \<Rightarrow> statement" where
  "classify line =
     (if line = ''end'' then S_end
      else case match_subgraph line of
        Some (subgraphId, subgraphTitle) \<Rightarrow> S_subgraph subgraphId subgraphTitle
      | None \<Rightarrow>
     (case match_classDef line of
        Some (names, st) \<Rightarrow> S_classDef names st
      | None \<Rightarrow>
     (case match_classAttachment line of
        Some (ns, cls) \<Rightarrow> S_classAttachment ns cls
      | None \<Rightarrow>
     (case match_linkStyle line of
        Some (digits, st) \<Rightarrow> S_linkStyle digits st
      | None \<Rightarrow>
     (case match_link line of
        Some (s, ty, label, d) \<Rightarrow> S_link s ty label d
      | None \<Rightarrow>
     (case parseNodeLine line of
        Some node \<Rightarrow> S_node node
      | None \<Rightarrow> S_unsupported))))))"

text \<open>The class definition statement.\<close>

definition parse_classDef :: "string \<Rightarrow> string \<Rightarrow> 'l chart \<Rightarrow> 'l chart" where
  "parse_classDef names st chart =
     addClassDef
       \<lparr>classNames = (if CHR '','' \<in> set names
                      then ClassNameList (map trim (split_char (CHR '','') names))
                      else ClassName names),
        cd_style = ClassStyleText (trim st)\<rparr>
       chart"

text \<open>The class attachment statement.\<close>

definition parse_classAttachment :: "string \<Rightarrow> string \<Rightarrow> 'l chart \<Rightarrow> 'l chart" where
  "parse_classAttachment ns cls chart =
     (let nodes = map trim (split_char (CHR '','') ns)
      in attachClass (if length nodes = 1 then OneId (hd nodes) else ManyNodes (map Id nodes))
           cls chart)"

text \<open>
  The link style statement: the style goes to the link of that index in the table, or
  to the positional overrides of the container.
\<close>

definition parse_linkStyle ::
  "string \<Rightarrow> string \<Rightarrow> nat chart \<Rightarrow> ParseState \<Rightarrow> bool \<Rightarrow> nat chart \<times> ParseState"
where
  "parse_linkStyle digits st chart state lastStatementWasLink =
     (let linkIndex = parseInt digits;
          style' = strip_semicolon (trim st)
      in case linksByIndex state linkIndex of
           Some link \<Rightarrow>
             if lastStatementWasLink \<and> lastParsedLinkIndex state = Some linkIndex
                \<and> \<not> has_style (style link)
             then (chart,
                   state\<lparr>linksByIndex :=
                     (linksByIndex state)(linkIndex \<mapsto> link\<lparr>style := Some (StyleText style')\<rparr>)\<rparr>)
             else (addLinkStyle (Index linkIndex) (StyleText style') chart, state)
         | None \<Rightarrow> (addLinkStyle (Index linkIndex) (StyleText style') chart, state))"

text \<open>The link statement.\<close>

definition parse_link ::
  "string \<Rightarrow> LinkType \<Rightarrow> string option \<Rightarrow> string \<Rightarrow> nat chart \<Rightarrow> ParseState \<Rightarrow> nat chart \<times> ParseState"
where
  "parse_link s ty label d chart state =
     (let link = \<lparr>src = Id s, dest = Id d, link_text = label, link_type = ty, style = None\<rparr>
      in (addLink (nextLinkIndex state) chart,
          state\<lparr>linksByIndex := (linksByIndex state)(nextLinkIndex state \<mapsto> link),
                lastParsedLinkIndex := Some (nextLinkIndex state),
                nextLinkIndex := nextLinkIndex state + 1\<rparr>))"

text \<open>\<open>while (index < lines.length && lines[index].trim() === '') index += 1\<close>\<close>

function skip_blank :: "string list \<Rightarrow> nat \<Rightarrow> nat" where
  "skip_blank lines index =
     (if index < length lines \<and> trim (lines ! index) = [] then skip_blank lines (index + 1)
      else index)"
  by pat_completeness auto

termination
  by (relation "measure (\<lambda>(lines, index). length lines - index)") auto

declare skip_blank.simps [simp del]

lemma skip_blank_ge: "index \<le> skip_blank lines index"
proof (induction lines index rule: skip_blank.induct)
  case (1 lines index)
  then show ?case
    by (subst skip_blank.simps) auto
qed

text \<open>\<open>new Subgraph(subgraphTitle, ChartDir.TD)\<close> with \<open>id\<close> and \<open>direction\<close> assigned.\<close>

definition new_Subgraph :: "string \<Rightarrow> string option \<Rightarrow> ChartDir \<Rightarrow> 'l chart" where
  "new_Subgraph subgraphId subgraphTitle d =
     Chart (Some (or_empty subgraphTitle)) d [] [] [] [] [] [] (Some subgraphId)"

function parseChartBody ::
  "string list \<Rightarrow> nat \<Rightarrow> nat chart \<Rightarrow> ParseState \<Rightarrow> bool \<Rightarrow> bool \<Rightarrow> parse_error + body_result"
where
  "parseChartBody lines index chart state stopOnEnd lastStatementWasLink =
     (if index < length lines then
        (let line = trim (lines ! index) in
         if line = [] then parseChartBody lines (index + 1) chart state stopOnEnd lastStatementWasLink
         else case classify line of
           S_end \<Rightarrow>
             (if \<not> stopOnEnd
              then Inr \<lparr>nextIndex = index + 1, foundEndToken = True, r_chart = chart, r_state = state\<rparr>
              else Inr \<lparr>nextIndex = index + 1, foundEndToken = True, r_chart = chart, r_state = state\<rparr>)
         | S_subgraph subgraphId subgraphTitle \<Rightarrow>
             (let index' = skip_blank lines (index + 1) in
              if index' \<ge> length lines then Inl (SubgraphMissingDirectionAndBody subgraphId)
              else case match_direction (trim (lines ! index')) of
                None \<Rightarrow> Inl (SubgraphMissingDirection subgraphId)
              | Some d \<Rightarrow>
                  (case parseChartBody lines (index' + 1) (new_Subgraph subgraphId subgraphTitle d)
                          state True False of
                     Inl e \<Rightarrow> Inl e
                   | Inr nestedResult \<Rightarrow>
                       if \<not> foundEndToken nestedResult then Inl (SubgraphMissingEnd subgraphId)
                       else parseChartBody lines (nextIndex nestedResult)
                              (addSubgraph (r_chart nestedResult) chart) (r_state nestedResult)
                              stopOnEnd False))
         | S_classDef names st \<Rightarrow>
             parseChartBody lines (index + 1) (parse_classDef names st chart) state stopOnEnd False
         | S_classAttachment ns cls \<Rightarrow>
             parseChartBody lines (index + 1) (parse_classAttachment ns cls chart) state
               stopOnEnd False
         | S_linkStyle digits st \<Rightarrow>
             parseChartBody lines (index + 1)
               (fst (parse_linkStyle digits st chart state lastStatementWasLink))
               (snd (parse_linkStyle digits st chart state lastStatementWasLink))
               stopOnEnd False
         | S_link s ty label d \<Rightarrow>
             parseChartBody lines (index + 1)
               (fst (parse_link s ty label d chart state))
               (snd (parse_link s ty label d chart state))
               stopOnEnd True
         | S_node node \<Rightarrow>
             parseChartBody lines (index + 1) (addNode node chart) state stopOnEnd False
         | S_unsupported \<Rightarrow> Inl (UnsupportedLine line))
      else Inr \<lparr>nextIndex = index, foundEndToken = False, r_chart = chart, r_state = state\<rparr>)"
  by pat_completeness auto

lemma parseChartBody_index:
  "parseChartBody_dom (lines, index, chart, state, stopOnEnd, lastStatementWasLink) \<Longrightarrow>
   parseChartBody lines index chart state stopOnEnd lastStatementWasLink = Inr r \<Longrightarrow>
   index \<le> nextIndex r"
proof (induction lines index chart state stopOnEnd lastStatementWasLink arbitrary: r
       rule: parseChartBody.pinduct)
  case (1 lines index chart state stopOnEnd lastStatementWasLink)
  note eq = "1.prems" [unfolded parseChartBody.psimps [OF "1.hyps"]]
  show ?case
  proof (cases "index < length lines")
    case False
    with eq show ?thesis by auto
  next
    case True
    note lt = this
    show ?thesis
    proof (cases "trim (lines ! index) = []")
      case True
      with eq lt "1.IH"(1) [OF lt refl True, of r] show ?thesis by (simp add: Let_def)
    next
      case False
      note ne = this
      show ?thesis
      proof (cases "classify (trim (lines ! index))")
        case S_end
        with eq lt ne show ?thesis by (auto simp: Let_def)
      next
        case (S_subgraph sid st)
        let ?i = "skip_blank lines (index + 1)"
        from eq lt ne S_subgraph obtain d nested where
          i: "?i < length lines" and d: "match_direction (trim (lines ! ?i)) = Some d"
          and n: "parseChartBody lines (?i + 1) (new_Subgraph sid st d) state True False = Inr nested"
          and f: "foundEndToken nested"
          and c: "parseChartBody lines (nextIndex nested) (addSubgraph (r_chart nested) chart) (r_state nested) stopOnEnd False = Inr r"
          by (auto simp: Let_def split: option.splits sum.splits if_splits)
        have i2: "\<not> length lines \<le> ?i" using i by simp
        have a: "?i + 1 \<le> nextIndex nested"
          using "1.IH"(2) [OF lt refl ne S_subgraph refl i2 d n] .
        have f2: "\<not> \<not> foundEndToken nested" using f by simp
        have "nextIndex nested \<le> nextIndex r"
          using "1.IH"(3) [OF lt refl ne S_subgraph refl i2 d n f2 c] .
        with a skip_blank_ge [of "index + 1" lines] show ?thesis by simp
      next
        case (S_classDef x31 x32)
        with eq lt ne "1.IH"(4) [OF lt refl ne S_classDef, of r] show ?thesis by (simp add: Let_def)
      next
        case (S_classAttachment x41 x42)
        with eq lt ne "1.IH"(5) [OF lt refl ne S_classAttachment, of r] show ?thesis by (simp add: Let_def)
      next
        case (S_linkStyle x51 x52)
        with eq lt ne "1.IH"(6) [OF lt refl ne S_linkStyle, of r] show ?thesis by (simp add: Let_def)
      next
        case (S_link x61 x62 x63 x64)
        with eq lt ne "1.IH"(7) [OF lt refl ne S_link, of r] show ?thesis by (simp add: Let_def)
      next
        case (S_node x7)
        with eq lt ne "1.IH"(8) [OF lt refl ne S_node, of r] show ?thesis by (simp add: Let_def)
      next
        case S_unsupported
        with eq lt ne show ?thesis by (simp add: Let_def)
      qed
    qed
  qed
qed

lemma skip_blank_measure:
  "\<not> length lines \<le> skip_blank lines (Suc index) \<Longrightarrow>
   length lines - Suc (skip_blank lines (Suc index)) < length lines - index"
  using skip_blank_ge [of "Suc index" lines] by arith

termination parseChartBody
proof (relation "measure (\<lambda>(lines, index, chart, state, stopOnEnd, lastStatementWasLink). length lines - index)", goal_cases)
  case 1
  then show ?case by simp
next
  case (4 lines index chart state stopOnEnd lastStatementWasLink line x21 x22 index' d nested)
  have "skip_blank lines (index + 1) + 1 \<le> nextIndex nested"
    using 4 parseChartBody_index [of lines "skip_blank lines (index + 1) + 1" "new_Subgraph x21 x22 d" state True False nested]
    by simp
  with 4 skip_blank_ge [of "index + 1" lines] show ?case
    by simp
qed (auto simp: skip_blank_measure)

declare parseChartBody.simps [simp del]

text \<open>The loop over the front matter: the last \<open>title:\<close> line gives the title.\<close>

function frontmatter_loop :: "string list \<Rightarrow> nat \<Rightarrow> string option \<Rightarrow> nat \<times> string option" where
  "frontmatter_loop lines index t =
     (if index < length lines \<and> trim (lines ! index) \<noteq> ''---''
      then frontmatter_loop lines (index + 1)
             (case match_title (trim (lines ! index)) of Some t' \<Rightarrow> Some t' | None \<Rightarrow> t)
      else (index, t))"
  by pat_completeness auto

termination
  by (relation "measure (\<lambda>(lines, index, t). length lines - index)") auto

declare frontmatter_loop.simps [simp del]

text \<open>The containers of the result hold the links as the table has them at the end.\<close>

definition resolve :: "ParseState \<Rightarrow> nat chart \<Rightarrow> Link chart" where
  "resolve state chart = map_chart (\<lambda>key. the (linksByIndex state key)) chart"

text \<open>\<open>parseFlowchart\<close>, from the array of lines on: the front matter, \<close>

definition parse_frontmatter :: "string list \<Rightarrow> parse_error + nat \<times> string option" where
  "parse_frontmatter lines =
     (let index = skip_blank lines 0
      in if index < length lines \<and> trim (lines ! index) = ''---''
         then (let (index, t) = frontmatter_loop lines (index + 1) None
               in if index \<ge> length lines \<or> trim (lines ! index) \<noteq> ''---''
                  then Inl MissingFrontmatterClose
                  else Inr (index + 1, t))
         else Inr (index, None))"

text \<open>the declaration and the body, \<close>

definition parse_declaration :: "string list \<Rightarrow> nat \<Rightarrow> string option \<Rightarrow> parse_error + Link chart" where
  "parse_declaration lines index t =
     (let index = skip_blank lines index
      in if index \<ge> length lines then Inl MissingFlowchartDeclaration
         else (let header = trim (lines ! index)
               in case match_header header of
                    None \<Rightarrow> Inl (InvalidFlowchartDeclaration header)
                  | Some d \<Rightarrow>
                      (case parseChartBody lines (index + 1) (new_Chart t d)
                              \<lparr>nextLinkIndex = 0, linksByIndex = Map.empty,
                               lastParsedLinkIndex = None\<rparr>
                              False False of
                         Inl e \<Rightarrow> Inl e
                       | Inr result \<Rightarrow>
                           if foundEndToken result then Inl UnexpectedEnd
                           else Inr (resolve (r_state result) (r_chart result)))))"

text \<open>and the whole.\<close>

definition parse_lines :: "string list \<Rightarrow> parse_error + Link chart" where
  "parse_lines lines =
     (case parse_frontmatter lines of
        Inl e \<Rightarrow> Inl e
      | Inr (index, t) \<Rightarrow> parse_declaration lines index t)"

definition parseFlowchart :: "string \<Rightarrow> parse_error + Link chart" where
  "parseFlowchart input = parse_lines (split_char (CHR 0x0A) (replace_crlf input))"

section \<open>The serializer of \<open>src/index.ts\<close>\<close>

text \<open>
  The file \<open>src/index.ts\<close> holds a copy of the model and of the serializer, without the
  parser. Its \<open>print\<close> and \<open>printBody\<close> return the text alone; its shape table and its
  fallback identifier (the text of \<open>Math.random() * 1000000\<close>, here the sequence \<open>rnd\<close>
  of texts) differ. The rest is as above.
\<close>

fun NodeShape_str_index_ts :: "NodeShape \<Rightarrow> string" where
  "NodeShape_str_index_ts CYLINDER = ''[(VAL]]''"
| "NodeShape_str_index_ts sh = NodeShape_str sh"

definition ChartNode_toString_index_ts :: "ChartNode \<Rightarrow> string \<times> ChartNode" where
  "ChartNode_toString_index_ts n =
     (let n' = ensureId n;
          classNameSuffix = (if truthy (className n') then '':::'' @ or_empty (className n') else [])
      in (node_id n' @ replace_first ''VAL'' (title n') (NodeShape_str_index_ts (shape n')) @ classNameSuffix,
          n'))"

definition Subgraph_getId_index_ts :: "(nat \<Rightarrow> string) \<Rightarrow> nat \<Rightarrow> Link chart \<Rightarrow> string \<times> nat" where
  "Subgraph_getId_index_ts rnd k s =
     (if truthy (sg_id s) then (or_empty (sg_id s), k)
      else if truthy (c_title s)
        then (filter (\<lambda>c. is_alnum c \<or> c \<in> set ''-_'') (or_empty (c_title s)), k)
      else (''subgraph'' @ rnd k, k + 1))"

function printBody_index_ts :: "(nat \<Rightarrow> string) \<Rightarrow> string \<Rightarrow> nat \<Rightarrow> nat \<Rightarrow> Link chart \<Rightarrow> string \<times> nat"
  and Subgraph_print_index_ts :: "(nat \<Rightarrow> string) \<Rightarrow> string \<Rightarrow> nat \<Rightarrow> nat \<Rightarrow> Link chart \<Rightarrow> string \<times> nat"
  and print_subgraphs_index_ts ::
    "(nat \<Rightarrow> string) \<Rightarrow> string \<Rightarrow> nat \<Rightarrow> Link chart list \<Rightarrow> string list \<times> nat \<Rightarrow> string list \<times> nat"
where
  "printBody_index_ts rnd indent linkCount k c =
     (let result = map (\<lambda>node. indent @ fst (ChartNode_toString_index_ts node)) (nodes c);
          (result, linkCount) = fold (print_link indent) (links c) (result, linkCount);
          (result, k) = print_subgraphs_index_ts rnd indent linkCount (subgraphs c) (result, k);
          result = result @ map (\<lambda>classDef. indent @ ClassDef_toString classDef) (classDefs c);
          result = result @ map (\<lambda>a. indent @ ClassAttachment_toString a) (classAttachments c);
          result = result @ map (print_positional indent) (positionalLinkStyles c)
      in (join [CHR 0x0A] result, k))"
| "Subgraph_print_index_ts rnd indent linkCount k s =
     (let (sid, k) = Subgraph_getId_index_ts rnd k s;
          result = [indent @ ''subgraph '' @ sid @ '' ['' @ or_empty (c_title s) @ '']'',
                    indent @ ''  direction '' @ ChartDir_str (direction s)];
          (text, k) = printBody_index_ts rnd (indent @ ''  '') linkCount k s;
          result = result @ [text];
          result = result @ [indent @ ''end'']
      in (join [CHR 0x0A] result, k))"
| "print_subgraphs_index_ts rnd indent linkCount [] (result, k) = (result, k)"
| "print_subgraphs_index_ts rnd indent linkCount (subgraph # rest) (result, k) =
     (let (text, k) = Subgraph_print_index_ts rnd indent linkCount k subgraph
      in print_subgraphs_index_ts rnd indent linkCount rest (result @ [text], k))"
  by pat_completeness auto

termination
  by (relation "measure (\<lambda>x. case x of
          Inl (_, _, _, _, c) \<Rightarrow> 2 * size c + 1
        | Inr (Inl (_, _, _, _, s)) \<Rightarrow> 2 * size s + 2
        | Inr (Inr (_, _, _, ss, _, _)) \<Rightarrow> 2 * size_list size ss + 1)")
     (auto simp: less_imp_le [OF size_subgraphs] intro: le_less_trans [OF _ size_subgraphs])

definition Chart_print_index_ts :: "(nat \<Rightarrow> string) \<Rightarrow> string \<Rightarrow> nat \<Rightarrow> nat \<Rightarrow> Link chart \<Rightarrow> string \<times> nat" where
  "Chart_print_index_ts rnd indent linkCount k c =
     (let result = (if truthy (c_title c)
                    then [indent @ ''---'', indent @ ''title: '' @ or_empty (c_title c), indent @ ''---'']
                    else []);
          result = result @ [indent @ ''flowchart '' @ ChartDir_str (direction c)];
          (text, k) = printBody_index_ts rnd (indent @ ''  '') linkCount k c;
          result = result @ [text];
          result = result @ [[]]
      in (join [CHR 0x0A] result, k))"

definition Chart_toString_index_ts :: "(nat \<Rightarrow> string) \<Rightarrow> Link chart \<Rightarrow> string" where
  "Chart_toString_index_ts rnd c = fst (Chart_print_index_ts rnd [] 0 0 c)"

section \<open>Properties of the serializer\<close>

declare show_nat.simps [simp del]

declare printBody.simps [simp del] Subgraph_print.simps [simp del]

declare printBody_index_ts.simps [simp del] Subgraph_print_index_ts.simps [simp del]

text \<open>The number of links of a container and of the containers below it.\<close>

fun countLinks :: "'l chart \<Rightarrow> nat" where
  "countLinks (Chart t d ns ls sgs cds cas pls i) = length ls + sum_list (map countLinks sgs)"

text \<open>
  Every sub-grouping of the tree has an identifier or a title that is not empty.
\<close>

fun ids_determined :: "'l chart \<Rightarrow> bool" where
  "ids_determined (Chart t d ns ls sgs cds cas pls i) =
     list_all (\<lambda>s. (truthy (sg_id s) \<or> truthy (c_title s)) \<and> ids_determined s) sgs"

text \<open>The lines that the loop over the links adds for one link, at counter \<open>i\<close>.\<close>

definition link_lines :: "string \<Rightarrow> nat \<Rightarrow> Link \<Rightarrow> string list" where
  "link_lines indent i l =
     (indent @ Link_toString l) #
     (case style l of
        None \<Rightarrow> []
      | Some v \<Rightarrow> if has_style (Some v)
                  then [indent @ ''linkStyle '' @ number_text i @ '' '' @ StyleValue_str v @ '';'']
                  else [])"

lemma print_link_step:
  "print_link indent l (result, n) = (result @ link_lines indent n l, Suc n)"
  by (simp add: print_link_def printStyle_def link_lines_def Let_def split: option.splits)

lemma print_links_fold:
  "fold (print_link indent) ls (result, n) =
     (result @ concat (map (\<lambda>(i, l). link_lines indent i l) (enumerate n ls)), n + length ls)"
proof (induction ls arbitrary: result n)
  case Nil
  then show ?case by simp
next
  case (Cons l ls)
  have "fold (print_link indent) (l # ls) (result, n) =
        fold (print_link indent) ls (result @ link_lines indent n l, Suc n)"
    by (simp add: print_link_step)
  then show ?case
    by (simp add: Cons.IH)
qed

lemma print_link_fold_count: "snd (fold (print_link indent) ls acc) = snd acc + length ls"
  by (induction ls arbitrary: acc) (simp_all add: print_link_def Let_def)

lemma countLinks_sel: "countLinks c = length (links c) + sum_list (map countLinks (subgraphs c))"
  by (cases c) simp

lemma counter_all:
  shows "fst (snd (printBody rnd indent n k c)) = n + countLinks c"
    and "fst (snd (Subgraph_print rnd indent n k s)) = n + countLinks s"
    and "fst (snd (print_subgraphs rnd indent ss acc)) = fst (snd acc) + sum_list (map countLinks ss)"
proof (induction rnd indent n k c and rnd indent n k s and rnd indent ss acc
       rule: printBody_Subgraph_print_print_subgraphs.induct)
  case (1 rnd indent linkCount k c)
  obtain r m where f: "fold (print_link indent) (links c) (map (\<lambda>node. indent @ fst (ChartNode_toString node)) (nodes c), linkCount) = (r, m)"
    by (cases "fold (print_link indent) (links c) (map (\<lambda>node. indent @ fst (ChartNode_toString node)) (nodes c), linkCount)")
  have m: "m = linkCount + length (links c)"
    using print_link_fold_count [of indent "links c" "(map (\<lambda>node. indent @ fst (ChartNode_toString node)) (nodes c), linkCount)"] f by simp
  have "fst (snd (print_subgraphs rnd indent (subgraphs c) (r, m, k))) = m + sum_list (map countLinks (subgraphs c))"
    using "1.IH" [OF refl f [symmetric]] by simp
  then show ?case
    by (simp add: printBody.simps [of rnd indent linkCount k c] f m countLinks_sel [of c] split_beta Let_def)
next
  case (2 rnd indent linkCount k s)
  obtain sid k' where g: "Subgraph_getId rnd k s = (sid, k')" by (cases "Subgraph_getId rnd k s")
  show ?case using "2.IH" [OF g [symmetric] refl]
    by (simp add: Subgraph_print.simps [of rnd indent linkCount k s] g split_beta Let_def)
next
  case (3 rnd indent result cur k)
  then show ?case by simp
next
  case (4 rnd indent subgraph rest result cur k)
  obtain tx nxt k' where p: "Subgraph_print rnd indent cur k subgraph = (tx, nxt, k')"
    by (cases "Subgraph_print rnd indent cur k subgraph")
  have n: "nxt = cur + countLinks subgraph"
    using "4.IH"(1) p by simp
  have "fst (snd (print_subgraphs rnd indent rest (result @ [tx], nxt, k'))) = nxt + sum_list (map countLinks rest)"
    using "4.IH"(2) [of "(tx, nxt, k')" tx "(nxt, k')" nxt k'] p by simp 
  then show ?case
    by (simp add: p n)
qed

text \<open>
  In \<open>printBody\<close> of \<open>src/unnamed/part_001\<close> the counter that a sub-grouping returns
  is the counter it received plus the number of links below it, and the loop over the
  sub-groupings hands that counter to the next one.
\<close>

lemma printBody_counter_threading:
  "fst (snd (printBody rnd indent n k c)) = n + countLinks c \<and>
   fst (snd (Subgraph_print rnd indent n k s)) = n + countLinks s \<and>
   print_subgraphs rnd indent (s # rest) (result, n, k) =
     print_subgraphs rnd indent rest
       (result @ [fst (Subgraph_print rnd indent n k s)], n + countLinks s,
        snd (snd (Subgraph_print rnd indent n k s)))"
  using counter_all(2) [of rnd indent n k s]
  by (simp add: counter_all split_beta)

definition styled_link :: "string \<Rightarrow> string \<Rightarrow> string \<Rightarrow> Link" where
  "styled_link a b col = \<lparr>src = Id a, dest = Id b, link_text = None, link_type = ARROW,
     style = Some (StyleObject \<lparr>ls_stroke = None, ls_strokeWidth = None, ls_color = Some col\<rparr>)\<rparr>"

definition two_subgraphs :: "Link chart" where
  "two_subgraphs =
     addSubgraph (Chart None TD [] [styled_link ''c'' ''d'' ''blue''] [] [] [] [] (Some ''B''))
      (addSubgraph (Chart None TD [] [styled_link ''a'' ''b'' ''red''] [] [] [] [] (Some ''A''))
        (new_Chart None TD))"

text \<open>
  Claim C2. The serializer passes the running link counter into each sub-grouping and
  gets it back advanced past the links of that subtree, so that one counter numbers the
  links of the whole tree in document order. \<open>printBody\<close> of \<open>src/index.ts\<close> passes
  the counter in and gets only the text back: in a chart with two sub-groupings of one
  styled link each, both style lines carry the index 0, where the claim, and
  \<open>printBody\<close> of \<open>src/unnamed/part_001\<close>, give 0 and 1.
\<close>

theorem index_ts_sibling_link_index:
  "split_char (CHR 0x0A) (Chart_toString_index_ts rnd two_subgraphs) =
     [''flowchart TD'',
      ''  subgraph A []'', ''    direction TD'', ''    a --> b'', ''    linkStyle 0 color:red;'', ''  end'',
      ''  subgraph B []'', ''    direction TD'', ''    c --> d'', ''    linkStyle 0 color:blue;'', ''  end'',
      []] \<and>
   split_char (CHR 0x0A) (Chart_toString rnd' two_subgraphs) =
     [''flowchart TD'',
      ''  subgraph A []'', ''    direction TD'', ''    a --> b'', ''    linkStyle 0 color:red;'', ''  end'',
      ''  subgraph B []'', ''    direction TD'', ''    c --> d'', ''    linkStyle 1 color:blue;'', ''  end'',
      []]"
  by code_simp

text \<open>
  Below \<open>2^53\<close> a natural number is its own Number, and prints as its decimal digits.
\<close>

lemma bit_length_le: "bit_length n \<le> k \<longleftrightarrow> n < 2 ^ k"
proof (induction n arbitrary: k rule: bit_length.induct)
  case (1 n)
  show ?case
  proof (cases "n = 0")
    case True
    then show ?thesis by (simp add: bit_length.simps)
  next
    case False
    show ?thesis
    proof (cases k)
      case 0
      then show ?thesis using False by (simp add: bit_length.simps [of n])
    next
      case (Suc j)
      have "bit_length (n div 2) \<le> j \<longleftrightarrow> n div 2 < 2 ^ j" using 1 False by simp
      moreover have "n div 2 < 2 ^ j \<longleftrightarrow> n < 2 * 2 ^ j" by auto
      ultimately show ?thesis using False Suc by (simp add: bit_length.simps [of n])
    qed
  qed
qed

lemma round_double_small: "n < 2 ^ 53 \<Longrightarrow> round_double n = n"
  by (simp add: round_double_def bit_length_le)

lemma number_text_small: "n < 2 ^ 53 \<Longrightarrow> number_text n = show_nat n"
proof -
  assume n: "n < 2 ^ 53"
  have "(2::nat) ^ 53 \<le> 2 ^ 1024" by (rule power_increasing) simp_all
  then have "n < 2 ^ 1024" using n by simp
  then have "\<not> 1024 < bit_length n" using bit_length_le [of n 1024] by simp
  then show ?thesis
    using n by (simp add: number_text_def round_double_small Let_def bit_length_le)
qed

lemma bit_length_numeral:
  "bit_length 0 = 0" "bit_length (Suc 0) = Suc 0"
  "bit_length (numeral k) = Suc (bit_length (numeral k div 2))"
  by (simp_all add: bit_length.simps [of 0] bit_length.simps [of "Suc 0"] bit_length.simps [of "numeral k"])

lemma show_nat_numeral:
  "show_nat (numeral k) =
     (if (numeral k :: nat) < 10 then [''0123456789'' ! numeral k]
      else show_nat (numeral k div 10) @ [''0123456789'' ! (numeral k mod 10)])"
  "show_nat 0 = ''0''" "show_nat (Suc 0) = ''1''"
  by (simp_all add: show_nat.simps [of 0] show_nat.simps [of "Suc 0"] show_nat.simps [of "numeral k"])

lemma search_digits_numeral:
  "search_digits x (numeral k) =
     (case nearest x (10 ^ numeral k) (rounding_candidates x (10 ^ numeral k)) of
        Some v \<Rightarrow> v | None \<Rightarrow> search_digits x (pred_numeral k))"
  by (simp add: numeral_eq_Suc)

text \<open>
  Numbers beyond the safe integers: \<open>Number.parseInt\<close> rounds, and a Number from
  \<open>1e21\<close> on prints in exponent form.
\<close>

lemma parseInt_rounds: "parseInt ''9007199254740993'' = 9007199254740992"
proof -
  have "foldl (\<lambda>n c. 10 * n + digit_value c) 0 ''9007199254740993'' = 9007199254740993"
    by (simp add: digit_value_def)
  moreover have "round_double 9007199254740993 = 9007199254740992"
    by (simp add: round_double_def Let_def bit_length_numeral)
  moreover have "bit_length 9007199254740992 = 54"
    by (simp add: bit_length_numeral)
  ultimately show ?thesis by (simp add: parseInt_def to_number_def Let_def)
qed

lemma number_text_exponent: "number_text 1000000000000000000000 = ''1e+21''"
proof -
  let ?x = "1000000000000000000000 :: nat"
  have b: "bit_length ?x = 70" by (simp add: bit_length_numeral)
  have r: "round_double ?x = ?x" by (simp add: round_double_def Let_def bit_length_numeral)
  have r2: "round_double 2000000000000000000000 \<noteq> ?x"
    by (simp add: round_double_def Let_def bit_length_numeral)
  have d: "show_nat ?x = ''1000000000000000000000''" by (simp add: show_nat_numeral)
  have l: "length ''1000000000000000000000'' - 1 = 21" by simp
  have s: "shortest ?x = ?x"
    unfolding shortest_def d l
    by (simp add: search_digits_numeral rounding_candidates_def nearest_def r r2)
  have e: "show_nat 21 = ''21''" by (simp add: show_nat_numeral)
  have l2: "\<not> length ''1000000000000000000000'' \<le> 21" by simp
  show ?thesis
    unfolding number_text_def r b s d Let_def l
    by (simp only: l2 e if_False) simp
qed

lemma print_positional_exponent:
  "print_positional ''  '' (Index 1000000000000000000000, StyleText ''stroke:red'') =
     ''  linkStyle 1e+21 stroke:red;''"
  by (simp add: print_positional_def number_text_exponent)

lemma print_subgraphs_result:
  "fst (print_subgraphs rnd indent ss (result, m, k)) =
     result @ fst (print_subgraphs rnd indent ss ([], m, k))"
proof (induction ss arbitrary: result m k)
  case Nil
  then show ?case by simp
next
  case (Cons s ss)
  obtain tx nxt k' where p: "Subgraph_print rnd indent m k s = (tx, nxt, k')"
    by (cases "Subgraph_print rnd indent m k s")
  show ?case
    using Cons [of "result @ [tx]" nxt k'] Cons [of "[tx]" nxt k'] by (simp add: p)
qed

lemma links_lines_small:
  "n + length ls \<le> 2 ^ 53 \<Longrightarrow>
   map (\<lambda>(i, l). link_lines indent i l) (enumerate n ls) =
   map (\<lambda>(i, l).
        (indent @ Link_toString l) #
        (if has_style (style l)
         then [indent @ ''linkStyle '' @ show_nat i @ '' '' @ StyleValue_str (the (style l)) @ '';'']
         else [])) (enumerate n ls)"
proof (induction ls arbitrary: n)
  case Nil
  then show ?case by simp
next
  case (Cons l ls)
  have n: "n < 2 ^ 53" and r: "Suc n + length ls \<le> 2 ^ 53" using Cons.prems by simp_all
  have "link_lines indent n l =
        (indent @ Link_toString l) #
        (if has_style (style l)
         then [indent @ ''linkStyle '' @ show_nat n @ '' '' @ StyleValue_str (the (style l)) @ '';'']
         else [])"
    by (cases "style l") (simp_all add: link_lines_def number_text_small [OF n])
  then show ?case using Cons.IH [OF r] by simp
qed

text \<open>
  Claim C4, as amended. With the counter below \<open>2^53\<close>, the text of a container is its
  node lines, then for each of its links in insertion order the line of the link and,
  exactly when the style of the link is truthy (an object, or a string that is not
  empty), a line \<open>linkStyle <index> <style>;\<close> right after it, whose index is the value
  of the running counter at that link, then the texts of the subgraphs, printed with
  the counter as the links leave it, and the class and positional style lines; the
  counter grows by one for every link, styled or not.
\<close>

theorem print_links_numbering:
  assumes "n + length (links c) \<le> 2 ^ 53"
  shows "fst (printBody rnd indent n k c) =
     join [CHR 0x0A]
       (map (\<lambda>node. indent @ fst (ChartNode_toString node)) (nodes c) @
        concat (map (\<lambda>(i, l).
          (indent @ Link_toString l) #
          (if has_style (style l)
           then [indent @ ''linkStyle '' @ show_nat i @ '' '' @ StyleValue_str (the (style l)) @ '';'']
           else [])) (enumerate n (links c))) @
        fst (print_subgraphs rnd indent (subgraphs c) ([], n + length (links c), k)) @
        map (\<lambda>classDef. indent @ ClassDef_toString classDef) (classDefs c) @
        map (\<lambda>a. indent @ ClassAttachment_toString a) (classAttachments c) @
        map (print_positional indent) (positionalLinkStyles c)) \<and>
     fst (snd (printBody rnd indent n k c)) =
       n + length (links c) + sum_list (map countLinks (subgraphs c))"
proof -
  define r where "r = map (\<lambda>node. indent @ fst (ChartNode_toString node)) (nodes c)"
  define ll where "ll = concat (map (\<lambda>(i, l). link_lines indent i l) (enumerate n (links c)))"
  have f: "fold (print_link indent) (links c) (r, n) = (r @ ll, n + length (links c))"
    by (simp add: print_links_fold ll_def)
  have s: "fst (print_subgraphs rnd indent (subgraphs c) (r @ ll, n + length (links c), k)) =
           (r @ ll) @ fst (print_subgraphs rnd indent (subgraphs c) ([], n + length (links c), k))"
    by (rule print_subgraphs_result)
  have "fst (printBody rnd indent n k c) =
     join [CHR 0x0A]
       (r @ ll @ fst (print_subgraphs rnd indent (subgraphs c) ([], n + length (links c), k)) @
        map (\<lambda>classDef. indent @ ClassDef_toString classDef) (classDefs c) @
        map (\<lambda>a. indent @ ClassAttachment_toString a) (classAttachments c) @
        map (print_positional indent) (positionalLinkStyles c))"
    by (simp add: printBody.simps [of rnd indent n k c] f [unfolded r_def] s [unfolded r_def]
        split_beta Let_def r_def)
  moreover have "fst (snd (printBody rnd indent n k c)) =
       n + length (links c) + sum_list (map countLinks (subgraphs c))"
    by (simp add: counter_all(1) countLinks_sel [of c])
  ultimately show ?thesis
    unfolding ll_def r_def links_lines_small [OF assms] by simp
qed

definition numbering_example :: "Link chart" where
  "numbering_example =
     Chart None TD []
       [\<lparr>src = Id ''a'', dest = Id ''b'', link_text = None, link_type = ARROW, style = None\<rparr>,
        \<lparr>src = Id ''b'', dest = Id ''c'', link_text = None, link_type = OPEN,
         style = Some (StyleText ''stroke:red'')\<rparr>,
        \<lparr>src = Id ''c'', dest = Id ''d'', link_text = None, link_type = ARROW,
         style = Some (StyleObject \<lparr>ls_stroke = None, ls_strokeWidth = None, ls_color = Some ''blue''\<rparr>)\<rparr>]
       [] [] [] [] None"

theorem print_links_numbering_witness:
  "7 + length (links numbering_example) \<le> (2::nat) ^ 53 \<and>
   fst (printBody (\<lambda>k. 0) ''  '' 7 0 numbering_example) =
     join [CHR 0x0A]
       [''  a --> b'',
        ''  b --- c'', ''  linkStyle 8 stroke:red;'',
        ''  c --> d'', ''  linkStyle 9 color:blue;''] \<and>
   fst (snd (printBody (\<lambda>k. 0) ''  '' 7 0 numbering_example)) = 10"
proof -
  have b: "7 + length (links numbering_example) \<le> (2::nat) ^ 53"
    by (simp add: numbering_example_def)
  have s: "show_nat 8 = ''8''" "show_nat 9 = ''9''"
    by (simp_all add: show_nat.simps)
  show ?thesis
    using print_links_numbering [OF b, of "\<lambda>k. 0" "''  ''" 0] b
    by (simp add: numbering_example_def s enumerate_eq_zip upt_rec [of 7] upt_rec [of 8] upt_rec [of 9]
        Link_toString_def LinkStyle_toString_def push_attr_def Let_def)
qed

text \<open>
  A link whose style is the empty string carries a raw string style, and no style line
  follows its line.
\<close>

theorem empty_style_counterexample:
  "style \<lparr>src = Id ''a'', dest = Id ''b'', link_text = None, link_type = ARROW,
          style = Some (StyleText [])\<rparr> \<noteq> None \<and>
   fst (printBody (\<lambda>k. 0) ''  '' 0 0
     (Chart None TD []
        [\<lparr>src = Id ''a'', dest = Id ''b'', link_text = None, link_type = ARROW,
          style = Some (StyleText [])\<rparr>] [] [] [] [] None)) = ''  a --> b''"
  by (simp add: printBody.simps print_link_def Link_toString_def Let_def)

text \<open>
  Claim C6, as amended. For a node constructed without an identifier, \<open>getId\<close> returns
  the label without the characters outside \<open>[A-Za-z0-9\-_!#$]\<close>, and a second call on
  the node returns the same identifier and leaves the node as it is. A computed
  identifier that is not empty is stored, so that it no longer follows the label; an
  empty one is not, and the next call computes the identifier again from the label the
  node has then.
\<close>

theorem getId_derived_and_stable:
  "node_id n = [] \<Longrightarrow>
     fst (getId n) = filter is_id_char (title n) \<and>
     getId (snd (getId n)) = (fst (getId n), snd (getId n)) \<and>
     (fst (getId n) \<noteq> [] \<longrightarrow> fst (getId ((snd (getId n))\<lparr>title := t'\<rparr>)) = fst (getId n)) \<and>
     (fst (getId n) = [] \<longrightarrow>
        fst (getId ((snd (getId n))\<lparr>title := t'\<rparr>)) = filter is_id_char t')"
  by (auto simp: getId_def ensureId_def Let_def)

theorem getId_derived_and_stable_witness:
  "node_id \<lparr>title = ''my node!'', shape = RECT_ROUND, node_id = [], className = None\<rparr> = [] \<and>
   fst (getId \<lparr>title = ''my node!'', shape = RECT_ROUND, node_id = [], className = None\<rparr>) = ''mynode!'' \<and>
   fst (getId (snd (getId \<lparr>title = ''my node!'', shape = RECT_ROUND, node_id = [], className = None\<rparr>))) = ''mynode!'' \<and>
   fst (getId ((snd (getId \<lparr>title = ''my node!'', shape = RECT_ROUND, node_id = [], className = None\<rparr>))\<lparr>title := ''other''\<rparr>)) = ''mynode!'' \<and>
   node_id \<lparr>title = ''?'', shape = CIRCLE, node_id = [], className = None\<rparr> = [] \<and>
   fst (getId \<lparr>title = ''?'', shape = CIRCLE, node_id = [], className = None\<rparr>) = [] \<and>
   fst (getId ((snd (getId \<lparr>title = ''?'', shape = CIRCLE, node_id = [], className = None\<rparr>))\<lparr>title := ''x y''\<rparr>)) = ''xy''"
  using getId_derived_and_stable [of "\<lparr>title = ''my node!'', shape = RECT_ROUND, node_id = [], className = None\<rparr>" "''other''"]
    getId_derived_and_stable [of "\<lparr>title = ''?'', shape = CIRCLE, node_id = [], className = None\<rparr>" "''x y''"]
  by (simp add: is_id_char_def is_alnum_def)

text \<open>
  The identifier computed first is not always kept: the label \<open>???\<close> gives the empty
  identifier, and after the label is set to \<open>ab\<close> the identifier is \<open>ab\<close>.
\<close>

theorem getId_recomputed_counterexample:
  "fst (getId \<lparr>title = ''???'', shape = RECT_ROUND, node_id = [], className = None\<rparr>) = [] \<and>
   fst (getId ((snd (getId \<lparr>title = ''???'', shape = RECT_ROUND, node_id = [], className = None\<rparr>))
                 \<lparr>title := ''ab''\<rparr>)) = ''ab''"
  by code_simp

lemma ids_determined_sel:
  "ids_determined c = list_all (\<lambda>s. (truthy (sg_id s) \<or> truthy (c_title s)) \<and> ids_determined s) (subgraphs c)"
  by (cases c) simp

lemma getId_no_draw:
  "truthy (sg_id s) \<or> truthy (c_title s) \<Longrightarrow> snd (Subgraph_getId rnd k s) = k"
  by (auto simp: Subgraph_getId_def)

lemma getId_indep:
  "truthy (sg_id s) \<or> truthy (c_title s) \<Longrightarrow> fst (Subgraph_getId rnd k s) = fst (Subgraph_getId rnd' k' s)"
  by (auto simp: Subgraph_getId_def)

lemma no_draw:
  shows "ids_determined c \<Longrightarrow> snd (snd (printBody rnd indent n k c)) = k"
    and "(truthy (sg_id s) \<or> truthy (c_title s)) \<and> ids_determined s \<Longrightarrow>
         snd (snd (Subgraph_print rnd indent n k s)) = k"
    and "list_all (\<lambda>s. (truthy (sg_id s) \<or> truthy (c_title s)) \<and> ids_determined s) ss \<Longrightarrow>
         snd (snd (print_subgraphs rnd indent ss acc)) = snd (snd acc)"
proof (induction rnd indent n k c and rnd indent n k s and rnd indent ss acc
       rule: printBody_Subgraph_print_print_subgraphs.induct)
  case (1 rnd indent linkCount k c)
  obtain r m where f: "fold (print_link indent) (links c) (map (\<lambda>node. indent @ fst (ChartNode_toString node)) (nodes c), linkCount) = (r, m)"
    by (cases "fold (print_link indent) (links c) (map (\<lambda>node. indent @ fst (ChartNode_toString node)) (nodes c), linkCount)")
  have "snd (snd (print_subgraphs rnd indent (subgraphs c) (r, m, k))) = k"
    using "1.IH" [OF refl f [symmetric]] "1.prems" ids_determined_sel [of c] by simp
  then show ?case
    by (simp add: printBody.simps [of rnd indent linkCount k c] f split_beta Let_def)
next
  case (2 rnd indent linkCount k s)
  obtain sid k' where g: "Subgraph_getId rnd k s = (sid, k')" by (cases "Subgraph_getId rnd k s")
  have k: "k' = k" using getId_no_draw [of s rnd k] "2.prems" g by simp
  show ?case using "2.IH" [OF g [symmetric] refl] "2.prems"
    by (simp add: Subgraph_print.simps [of rnd indent linkCount k s] g k split_beta Let_def)
next
  case (3 rnd indent result cur k)
  then show ?case by simp
next
  case (4 rnd indent subgraph rest result cur k)
  obtain tx nxt k' where p: "Subgraph_print rnd indent cur k subgraph = (tx, nxt, k')"
    by (cases "Subgraph_print rnd indent cur k subgraph")
  have k: "k' = k"
    using "4.IH"(1) "4.prems" p by simp
  have "snd (snd (print_subgraphs rnd indent rest (result @ [tx], nxt, k'))) = k'"
    using "4.IH"(2) [of "(tx, nxt, k')" tx "(nxt, k')" nxt k'] p "4.prems" by simp
  then show ?case
    by (simp add: p k)
qed

lemma text_independent:
  shows "ids_determined c \<Longrightarrow>
         \<forall>k'. fst (printBody rnd indent n k c) = fst (printBody rnd' indent n k' c)"
    and "(truthy (sg_id s) \<or> truthy (c_title s)) \<and> ids_determined s \<Longrightarrow>
         \<forall>k'. fst (Subgraph_print rnd indent n k s) = fst (Subgraph_print rnd' indent n k' s)"
    and "list_all (\<lambda>s. (truthy (sg_id s) \<or> truthy (c_title s)) \<and> ids_determined s) ss \<Longrightarrow>
         \<forall>k'. fst (print_subgraphs rnd indent ss acc) =
               fst (print_subgraphs rnd' indent ss (fst acc, fst (snd acc), k'))"
proof (induction rnd indent n k c and rnd indent n k s and rnd indent ss acc
       rule: printBody_Subgraph_print_print_subgraphs.induct)
  case (1 rnd indent linkCount k c)
  obtain r m where f: "fold (print_link indent) (links c) (map (\<lambda>node. indent @ fst (ChartNode_toString node)) (nodes c), linkCount) = (r, m)"
    by (cases "fold (print_link indent) (links c) (map (\<lambda>node. indent @ fst (ChartNode_toString node)) (nodes c), linkCount)")
  have "\<forall>k'. fst (print_subgraphs rnd indent (subgraphs c) (r, m, k)) =
              fst (print_subgraphs rnd' indent (subgraphs c) (r, m, k'))"
    using "1.IH" [OF refl f [symmetric]] "1.prems" ids_determined_sel [of c] by simp
  then show ?case
    by (simp add: printBody.simps [of _ indent linkCount _ c] f split_beta Let_def)
next
  case (2 rnd indent linkCount k s)
  obtain sid k1 where g: "Subgraph_getId rnd k s = (sid, k1)" by (cases "Subgraph_getId rnd k s")
  have k: "k1 = k" using getId_no_draw [of s rnd k] "2.prems" g by simp
  have g': "Subgraph_getId rnd' k' s = (sid, k')" for k'
    using getId_no_draw [of s rnd' k'] getId_indep [of s rnd k rnd' k'] "2.prems" g
    by (cases "Subgraph_getId rnd' k' s") simp
  show ?case using "2.IH" [OF g [symmetric] refl] "2.prems"
    by (simp add: Subgraph_print.simps [of _ indent linkCount _ s] g g' k split_beta Let_def)
next
  case (3 rnd indent result cur k)
  then show ?case by simp
next
  case (4 rnd indent subgraph rest result cur k)
  obtain tx nxt k1 where p: "Subgraph_print rnd indent cur k subgraph = (tx, nxt, k1)"
    by (cases "Subgraph_print rnd indent cur k subgraph")
  have s: "(truthy (sg_id subgraph) \<or> truthy (c_title subgraph)) \<and> ids_determined subgraph"
    using "4.prems" by simp
  have p': "Subgraph_print rnd' indent cur k' subgraph = (tx, nxt, k')" for k'
  proof -
    have "fst (Subgraph_print rnd' indent cur k' subgraph) = tx"
      using "4.IH"(1) [OF s] p by (metis fst_conv)
    moreover have "fst (snd (Subgraph_print rnd' indent cur k' subgraph)) = nxt"
      using counter_all(2) [of rnd' indent cur k' subgraph] counter_all(2) [of rnd indent cur k subgraph] p
      by simp
    moreover have "snd (snd (Subgraph_print rnd' indent cur k' subgraph)) = k'"
      using no_draw(2) [OF s] .
    ultimately show ?thesis
      by (cases "Subgraph_print rnd' indent cur k' subgraph") simp
  qed
  have "\<forall>k'. fst (print_subgraphs rnd indent rest (result @ [tx], nxt, k1)) =
              fst (print_subgraphs rnd' indent rest (result @ [tx], nxt, k'))"
    using "4.IH"(2) [of "(tx, nxt, k1)" tx "(nxt, k1)" nxt k1] p "4.prems" by simp
  then show ?case
    by (simp add: p p')
qed

definition named_subgraphs :: "Link chart" where
  "named_subgraphs =
     addSubgraph (Chart (Some ''Second group'') LR [] [] [] [] [] [] None)
      (addSubgraph (Chart None TD [] [] [] [] [] [] (Some ''first''))
        (new_Chart (Some ''t'') TD))"

text \<open>
  Claim C9. When every sub-grouping of the tree has an identifier or a title that is not
  empty, the text that \<open>toString\<close> returns does not depend on the random numbers; a
  sub-grouping with neither gets the identifier \<open>subgraph\<close> followed by the random
  number drawn.
\<close>

theorem serialization_deterministic:
  "(ids_determined c \<longrightarrow> Chart_toString rnd c = Chart_toString rnd' c) \<and>
   (\<not> truthy (sg_id s) \<and> \<not> truthy (c_title s) \<longrightarrow>
      Subgraph_getId rnd k s = (''subgraph'' @ show_nat (rnd k), k + 1))"
  using text_independent(1) [of c rnd "''  ''" 0 0 rnd']
  by (simp add: Chart_toString_def Chart_print_def Subgraph_getId_def split_beta Let_def)

theorem serialization_deterministic_witness:
  "ids_determined named_subgraphs \<and>
   Chart_toString (\<lambda>_. 7) named_subgraphs = Chart_toString (\<lambda>_. 2) named_subgraphs \<and>
   \<not> truthy (sg_id (new_Chart None TD :: Link chart)) \<and>
   \<not> truthy (c_title (new_Chart None TD :: Link chart)) \<and>
   Subgraph_getId (\<lambda>_. 7) 0 (new_Chart None TD) = (''subgraph7'', 1)"
proof -
  have d: "ids_determined named_subgraphs"
    by (simp add: named_subgraphs_def new_Chart_def)
  have n: "\<not> truthy (sg_id (new_Chart None TD :: Link chart)) \<and>
           \<not> truthy (c_title (new_Chart None TD :: Link chart))"
    by (simp add: new_Chart_def)
  have s: "show_nat 7 = ''7''"
    by code_simp
  show ?thesis
    using serialization_deterministic
            [of named_subgraphs "\<lambda>_. 7" "\<lambda>_. 2" "new_Chart None TD" 0] d n s
    by simp
qed

section \<open>Properties of the parser\<close>

lemma trim_no_leading_ws: "dropWhile is_ws (trim s) = trim s"
proof -
  define a where "a = dropWhile is_ws s"
  define b where "b = dropWhile is_ws (rev a)"
  have t: "trim s = rev b" by (simp add: trim_def a_def b_def)
  show ?thesis
  proof (cases "rev b")
    case Nil
    then show ?thesis by (simp add: t)
  next
    case (Cons x xs)
    have "rev a = takeWhile is_ws (rev a) @ b" by (simp add: b_def)
    then have "a = rev b @ rev (takeWhile is_ws (rev a))" by (metis rev_append rev_rev_ident)
    with Cons have "a = x # xs @ rev (takeWhile is_ws (rev a))" by simp
    then have "\<not> is_ws x" unfolding a_def by (metis hd_dropWhile list.distinct(1) list.sel(1))
    with Cons show ?thesis by (simp add: t)
  qed
qed

lemma trim_idem: "trim (trim s) = trim s"
proof -
  have "trim (trim s) = rev (dropWhile is_ws (rev (trim s)))"
    using trim_no_leading_ws [of s] by (simp add: trim_def [of "trim s"])
  also have "\<dots> = trim s"
    by (simp add: trim_def [of s])
  finally show ?thesis .
qed

lemma body_exhausted:
  "\<not> index < length lines \<Longrightarrow>
   parseChartBody lines index chart state b l =
     Inr \<lparr>nextIndex = index, foundEndToken = False, r_chart = chart, r_state = state\<rparr>"
  by (subst parseChartBody.simps) simp

lemma body_blank:
  "index < length lines \<Longrightarrow> trim (lines ! index) = [] \<Longrightarrow>
   parseChartBody lines index chart state b l = parseChartBody lines (Suc index) chart state b l"
  by (subst parseChartBody.simps) simp

lemma body_end:
  "index < length lines \<Longrightarrow> trim (lines ! index) \<noteq> [] \<Longrightarrow>
   classify (trim (lines ! index)) = S_end \<Longrightarrow>
   parseChartBody lines index chart state b l =
     Inr \<lparr>nextIndex = Suc index, foundEndToken = True, r_chart = chart, r_state = state\<rparr>"
  by (subst parseChartBody.simps) (simp add: Let_def)

lemma body_unsupported:
  "index < length lines \<Longrightarrow> trim (lines ! index) \<noteq> [] \<Longrightarrow>
   classify (trim (lines ! index)) = S_unsupported \<Longrightarrow>
   parseChartBody lines index chart state b l = Inl (UnsupportedLine (trim (lines ! index)))"
  by (subst parseChartBody.simps) (simp add: Let_def)

lemma body_classDef:
  "index < length lines \<Longrightarrow> trim (lines ! index) \<noteq> [] \<Longrightarrow>
   classify (trim (lines ! index)) = S_classDef names st \<Longrightarrow>
   parseChartBody lines index chart state b l =
     parseChartBody lines (Suc index) (parse_classDef names st chart) state b False"
  by (subst parseChartBody.simps) (simp add: Let_def)

lemma body_classAttachment:
  "index < length lines \<Longrightarrow> trim (lines ! index) \<noteq> [] \<Longrightarrow>
   classify (trim (lines ! index)) = S_classAttachment ns cls \<Longrightarrow>
   parseChartBody lines index chart state b l =
     parseChartBody lines (Suc index) (parse_classAttachment ns cls chart) state b False"
  by (subst parseChartBody.simps) (simp add: Let_def)

lemma body_linkStyle:
  "index < length lines \<Longrightarrow> trim (lines ! index) \<noteq> [] \<Longrightarrow>
   classify (trim (lines ! index)) = S_linkStyle digits st \<Longrightarrow>
   parseChartBody lines index chart state b l =
     parseChartBody lines (Suc index)
       (fst (parse_linkStyle digits st chart state l))
       (snd (parse_linkStyle digits st chart state l)) b False"
  by (subst parseChartBody.simps) (simp add: Let_def)

lemma body_link:
  "index < length lines \<Longrightarrow> trim (lines ! index) \<noteq> [] \<Longrightarrow>
   classify (trim (lines ! index)) = S_link s ty label d \<Longrightarrow>
   parseChartBody lines index chart state b l =
     parseChartBody lines (Suc index)
       (fst (parse_link s ty label d chart state))
       (snd (parse_link s ty label d chart state)) b True"
  by (subst parseChartBody.simps) (simp add: Let_def)

lemma body_node:
  "index < length lines \<Longrightarrow> trim (lines ! index) \<noteq> [] \<Longrightarrow>
   classify (trim (lines ! index)) = S_node node \<Longrightarrow>
   parseChartBody lines index chart state b l =
     parseChartBody lines (Suc index) (addNode node chart) state b False"
  by (subst parseChartBody.simps) (simp add: Let_def)

lemma body_subgraph:
  "index < length lines \<Longrightarrow> trim (lines ! index) \<noteq> [] \<Longrightarrow>
   classify (trim (lines ! index)) = S_subgraph sid tt \<Longrightarrow>
   parseChartBody lines index chart state b l =
     (if skip_blank lines (Suc index) \<ge> length lines then Inl (SubgraphMissingDirectionAndBody sid)
      else case match_direction (trim (lines ! skip_blank lines (Suc index))) of
        None \<Rightarrow> Inl (SubgraphMissingDirection sid)
      | Some d \<Rightarrow>
          (case parseChartBody lines (Suc (skip_blank lines (Suc index))) (new_Subgraph sid tt d)
                  state True False of
             Inl e \<Rightarrow> Inl e
           | Inr nestedResult \<Rightarrow>
               if \<not> foundEndToken nestedResult then Inl (SubgraphMissingEnd sid)
               else parseChartBody lines (nextIndex nestedResult)
                      (addSubgraph (r_chart nestedResult) chart) (r_state nestedResult) b False))"
  by (subst parseChartBody.simps) (simp add: Let_def split: option.splits sum.splits)

lemma skip_blank_blank:
  "index < length lines \<Longrightarrow> trim (lines ! index) = [] \<Longrightarrow>
   skip_blank lines index = skip_blank lines (Suc index)"
  by (subst skip_blank.simps) simp

lemma skip_blank_stop:
  "\<not> (index < length lines \<and> trim (lines ! index) = []) \<Longrightarrow> skip_blank lines index = index"
  by (subst skip_blank.simps) auto

lemma frontmatter_loop_step:
  "index < length lines \<Longrightarrow> trim (lines ! index) \<noteq> ''---'' \<Longrightarrow>
   frontmatter_loop lines index t =
     frontmatter_loop lines (Suc index)
       (case match_title (trim (lines ! index)) of Some t' \<Rightarrow> Some t' | None \<Rightarrow> t)"
  by (subst frontmatter_loop.simps) simp

lemma frontmatter_loop_stop:
  "\<not> (index < length lines \<and> trim (lines ! index) \<noteq> ''---'') \<Longrightarrow>
   frontmatter_loop lines index t = (index, t)"
  by (subst frontmatter_loop.simps) auto

text \<open>Two arrays of lines with the same trimmed lines.\<close>

definition same_trimmed :: "string list \<Rightarrow> string list \<Rightarrow> bool" where
  "same_trimmed ls ls' = (map trim ls = map trim ls')"

lemma same_trimmed_length: "same_trimmed ls ls' \<Longrightarrow> length ls' = length ls"
  unfolding same_trimmed_def by (metis length_map)

lemma same_trimmed_nth: "same_trimmed ls ls' \<Longrightarrow> i < length ls \<Longrightarrow> trim (ls' ! i) = trim (ls ! i)"
  unfolding same_trimmed_def by (metis length_map nth_map)

lemma skip_blank_same:
  "same_trimmed ls ls' \<Longrightarrow> skip_blank ls' i = skip_blank ls i"
proof (induction ls i rule: skip_blank.induct)
  case (1 lines index)
  note s = "1.prems"
  show ?case
  proof (cases "index < length lines \<and> trim (lines ! index) = []")
    case True
    then have "index < length ls' \<and> trim (ls' ! index) = []"
      using same_trimmed_length [OF s] same_trimmed_nth [OF s] by simp
    then show ?thesis
      using True "1.IH" s by (simp add: skip_blank_blank)
  next
    case False
    then have "\<not> (index < length ls' \<and> trim (ls' ! index) = [])"
      using same_trimmed_length [OF s] same_trimmed_nth [OF s] by auto
    then show ?thesis
      using False by (simp add: skip_blank_stop)
  qed
qed

lemma frontmatter_loop_same:
  "same_trimmed ls ls' \<Longrightarrow> frontmatter_loop ls' i t = frontmatter_loop ls i t"
proof (induction ls i t rule: frontmatter_loop.induct)
  case (1 lines index t)
  note s = "1.prems"
  show ?case
  proof (cases "index < length lines \<and> trim (lines ! index) \<noteq> ''---''")
    case True
    then have "index < length ls' \<and> trim (ls' ! index) \<noteq> ''---''"
      using same_trimmed_length [OF s] same_trimmed_nth [OF s] by simp
    then show ?thesis
      using True "1.IH" s same_trimmed_nth [OF s] by (simp add: frontmatter_loop_step)
  next
    case False
    then have "\<not> (index < length ls' \<and> trim (ls' ! index) \<noteq> ''---'')"
      using same_trimmed_length [OF s] same_trimmed_nth [OF s] by auto
    then show ?thesis
      using False by (simp add: frontmatter_loop_stop)
  qed
qed

lemma parseChartBody_same:
  "same_trimmed ls ls' \<Longrightarrow> parseChartBody ls' i c st b l = parseChartBody ls i c st b l"
proof (induction ls i c st b l rule: parseChartBody.induct)
  case (1 lines index chart state stopOnEnd lastStatementWasLink)
  note s = "1.prems"
  note len = same_trimmed_length [OF s]
  show ?case
  proof (cases "index < length lines")
    case False
    then show ?thesis
      using len by (simp add: body_exhausted)
  next
    case lt: True
    then have lt': "index < length ls'" using len by simp
    have tr: "trim (ls' ! index) = trim (lines ! index)"
      using same_trimmed_nth [OF s lt] .
    show ?thesis
    proof (cases "trim (lines ! index) = []")
      case True
      then show ?thesis
        using "1.IH"(1) [OF lt refl True s] lt lt' tr by (simp add: body_blank)
    next
      case ne: False
      then have ne': "trim (ls' ! index) \<noteq> []" using tr by simp
      show ?thesis
      proof (cases "classify (trim (lines ! index))")
        case S_end
        then have "classify (trim (ls' ! index)) = S_end" using tr by simp
        then show ?thesis
          using S_end lt lt' ne ne' by (simp add: body_end)
      next
        case (S_subgraph sid tt)
        then have cl': "classify (trim (ls' ! index)) = S_subgraph sid tt" using tr by simp
        let ?i = "skip_blank lines (Suc index)"
        have sk: "skip_blank ls' (Suc index) = ?i" using skip_blank_same [OF s] .
        note L = body_subgraph [OF lt ne S_subgraph, of chart state stopOnEnd lastStatementWasLink]
        note R = body_subgraph [OF lt' ne' cl', of chart state stopOnEnd lastStatementWasLink]
        show ?thesis
        proof (cases "length lines \<le> ?i")
          case True
          then show ?thesis using L R sk len by simp
        next
          case i: False
          then have i': "\<not> length lines \<le> skip_blank lines (index + 1)" by simp
          have tr2: "trim (ls' ! ?i) = trim (lines ! ?i)"
            using same_trimmed_nth [OF s, of ?i] i by simp
          show ?thesis
          proof (cases "match_direction (trim (lines ! ?i))")
            case None
            then show ?thesis using L R sk len i tr2 by simp
          next
            case (Some d)
            then have d': "match_direction (trim (lines ! skip_blank lines (index + 1))) = Some d" by simp
            note n = "1.IH"(2) [OF lt refl ne S_subgraph refl i' d' s]
            show ?thesis
            proof (cases "parseChartBody lines (Suc ?i) (new_Subgraph sid tt d) state True False")
              case (Inl e)
              then show ?thesis using L R sk len i tr2 Some n by simp
            next
              case (Inr nested)
              then have n': "parseChartBody lines (skip_blank lines (index + 1) + 1) (new_Subgraph sid tt d) state True False = Inr nested"
                by simp
              show ?thesis
              proof (cases "foundEndToken nested")
                case False
                then show ?thesis using L R sk len i tr2 Some n Inr by simp
              next
                case True
                then have f: "\<not> \<not> foundEndToken nested" by simp
                note c = "1.IH"(3) [OF lt refl ne S_subgraph refl i' d' n' f s]
                show ?thesis using L R sk len i tr2 Some n Inr True c by simp
              qed
            qed
          qed
        qed
      next
        case (S_classDef names sty)
        then have "classify (trim (ls' ! index)) = S_classDef names sty" using tr by simp
        then show ?thesis
          using S_classDef lt lt' ne ne' "1.IH"(4) [OF lt refl ne S_classDef s]
          by (simp add: body_classDef)
      next
        case (S_classAttachment ns cls)
        then have "classify (trim (ls' ! index)) = S_classAttachment ns cls" using tr by simp
        then show ?thesis
          using S_classAttachment lt lt' ne ne' "1.IH"(5) [OF lt refl ne S_classAttachment s]
          by (simp add: body_classAttachment)
      next
        case (S_linkStyle digits sty)
        then have "classify (trim (ls' ! index)) = S_linkStyle digits sty" using tr by simp
        then show ?thesis
          using S_linkStyle lt lt' ne ne' "1.IH"(6) [OF lt refl ne S_linkStyle s]
          by (simp add: body_linkStyle)
      next
        case (S_link src' ty label dst)
        then have "classify (trim (ls' ! index)) = S_link src' ty label dst" using tr by simp
        then show ?thesis
          using S_link lt lt' ne ne' "1.IH"(7) [OF lt refl ne S_link s]
          by (simp add: body_link)
      next
        case (S_node node)
        then have "classify (trim (ls' ! index)) = S_node node" using tr by simp
        then show ?thesis
          using S_node lt lt' ne ne' "1.IH"(8) [OF lt refl ne S_node s]
          by (simp add: body_node)
      next
        case S_unsupported
        then have "classify (trim (ls' ! index)) = S_unsupported" using tr by simp
        then show ?thesis
          using S_unsupported lt lt' ne ne' tr by (simp add: body_unsupported)
      qed
    qed
  qed
qed

lemma parse_frontmatter_same:
  assumes s: "same_trimmed ls ls'"
  shows "parse_frontmatter ls' = parse_frontmatter ls"
proof -
  note len = same_trimmed_length [OF s]
  let ?i = "skip_blank ls 0"
  have i: "skip_blank ls' 0 = ?i" using skip_blank_same [OF s] .
  show ?thesis
  proof (cases "?i < length ls")
    case False
    then show ?thesis by (simp add: parse_frontmatter_def i len Let_def)
  next
    case True
    then have tr: "trim (ls' ! ?i) = trim (ls ! ?i)" using same_trimmed_nth [OF s] by simp
    obtain j t where f: "frontmatter_loop ls (Suc ?i) None = (j, t)"
      by (cases "frontmatter_loop ls (Suc ?i) None")
    then have f': "frontmatter_loop ls' (Suc ?i) None = (j, t)"
      using frontmatter_loop_same [OF s] by simp
    show ?thesis
    proof (cases "j < length ls")
      case False
      then show ?thesis using True by (simp add: parse_frontmatter_def i len tr f f' Let_def)
    next
      case j: True
      then have "trim (ls' ! j) = trim (ls ! j)" using same_trimmed_nth [OF s] by simp
      then show ?thesis using True j by (simp add: parse_frontmatter_def i len tr f f' Let_def)
    qed
  qed
qed

lemma parse_declaration_same:
  assumes s: "same_trimmed ls ls'"
  shows "parse_declaration ls' index t = parse_declaration ls index t"
proof -
  note len = same_trimmed_length [OF s]
  let ?i = "skip_blank ls index"
  have i: "skip_blank ls' index = ?i" using skip_blank_same [OF s] .
  show ?thesis
  proof (cases "?i < length ls")
    case False
    then show ?thesis by (simp add: parse_declaration_def i len Let_def)
  next
    case True
    then have tr: "trim (ls' ! ?i) = trim (ls ! ?i)" using same_trimmed_nth [OF s] by simp
    show ?thesis using True
      by (simp add: parse_declaration_def i len tr parseChartBody_same [OF s] Let_def split: option.splits)
  qed
qed

text \<open>
  Claim C10. The parser reads every line through \<open>trim\<close> only: two inputs whose lines
  are the same after trimming (white space added or removed at the start or the end of
  any line) have the same parse result, the same container or the same error.
\<close>

theorem parser_ignores_indentation:
  "map trim (split_char (CHR 0x0A) (replace_crlf input)) =
   map trim (split_char (CHR 0x0A) (replace_crlf input')) \<Longrightarrow>
   parseFlowchart input = parseFlowchart input'"
proof -
  assume "map trim (split_char (CHR 0x0A) (replace_crlf input)) =
          map trim (split_char (CHR 0x0A) (replace_crlf input'))"
  then have s: "same_trimmed (split_char (CHR 0x0A) (replace_crlf input'))
                  (split_char (CHR 0x0A) (replace_crlf input))"
    by (simp add: same_trimmed_def)
  show ?thesis
    by (simp add: parseFlowchart_def parse_lines_def parse_frontmatter_same [OF s]
        parse_declaration_same [OF s] split: sum.splits)
qed

definition indented_example :: string where
  "indented_example = join [CHR 0x0A] [''flowchart LR'', ''  a(A)'', ''  a --> b'', ''  linkStyle 0 color:red;'']"

definition reindented_example :: string where
  "reindented_example = join [CHR 0x0A] ['' flowchart LR  '', [CHR 0x09] @ ''a(A)'', ''a --> b'' @ [CHR 0x0D], ''      linkStyle 0 color:red;   '']"

theorem parser_ignores_indentation_witness:
  "map trim (split_char (CHR 0x0A) (replace_crlf indented_example)) =
   map trim (split_char (CHR 0x0A) (replace_crlf reindented_example)) \<and>
   parseFlowchart indented_example = parseFlowchart reindented_example"
proof -
  have h: "map trim (split_char (CHR 0x0A) (replace_crlf indented_example)) =
           map trim (split_char (CHR 0x0A) (replace_crlf reindented_example))"
    by code_simp
  show ?thesis
    using h parser_ignores_indentation [OF h] by simp
qed

lemma skip_blank_prefix:
  "skip_blank pre j < length pre \<Longrightarrow> skip_blank (pre @ rest) j = skip_blank pre j"
proof (induction pre j rule: skip_blank.induct)
  case (1 lines index)
  show ?case
  proof (cases "index < length lines \<and> trim (lines ! index) = []")
    case True
    then have e: "skip_blank lines index = skip_blank lines (Suc index)"
      by (simp add: skip_blank_blank)
    have "index < length (lines @ rest) \<and> trim ((lines @ rest) ! index) = []"
      using True by (simp add: nth_append)
    then have "skip_blank (lines @ rest) index = skip_blank (lines @ rest) (Suc index)"
      by (simp add: skip_blank_blank)
    then show ?thesis
      using "1.IH" True "1.prems" e by simp
  next
    case False
    then have e: "skip_blank lines index = index" by (simp add: skip_blank_stop)
    then have "index < length lines" using "1.prems" by simp
    then have "\<not> (index < length (lines @ rest) \<and> trim ((lines @ rest) ! index) = [])"
      using False by (simp add: nth_append)
    then show ?thesis using e by (simp add: skip_blank_stop)
  qed
qed

lemma skip_blank_le_length: "j \<le> length ls \<Longrightarrow> skip_blank ls j \<le> length ls"
proof (induction ls j rule: skip_blank.induct)
  case (1 lines index)
  show ?case
  proof (cases "index < length lines \<and> trim (lines ! index) = []")
    case True
    then show ?thesis using "1.IH" by (simp add: skip_blank_blank)
  next
    case False
    then show ?thesis using "1.prems" by (simp add: skip_blank_stop)
  qed
qed

lemma frontmatter_loop_prefix:
  "fst (frontmatter_loop pre j t) < length pre \<Longrightarrow>
   frontmatter_loop (pre @ rest) j t = frontmatter_loop pre j t"
proof (induction pre j t rule: frontmatter_loop.induct)
  case (1 lines index t)
  show ?case
  proof (cases "index < length lines \<and> trim (lines ! index) \<noteq> ''---''")
    case True
    then have e: "frontmatter_loop lines index t =
        frontmatter_loop lines (Suc index)
          (case match_title (trim (lines ! index)) of Some t' \<Rightarrow> Some t' | None \<Rightarrow> t)"
      by (simp add: frontmatter_loop_step)
    have "index < length (lines @ rest) \<and> trim ((lines @ rest) ! index) \<noteq> ''---''"
      using True by (simp add: nth_append)
    then have "frontmatter_loop (lines @ rest) index t =
        frontmatter_loop (lines @ rest) (Suc index)
          (case match_title (trim ((lines @ rest) ! index)) of Some t' \<Rightarrow> Some t' | None \<Rightarrow> t)"
      by (simp add: frontmatter_loop_step)
    then show ?thesis
      using "1.IH" True "1.prems" e by (simp add: nth_append)
  next
    case False
    then have e: "frontmatter_loop lines index t = (index, t)" by (simp add: frontmatter_loop_stop)
    then have "index < length lines" using "1.prems" by simp
    then have "\<not> (index < length (lines @ rest) \<and> trim ((lines @ rest) ! index) \<noteq> ''---'')"
      using False by (simp add: nth_append)
    then show ?thesis using e by (simp add: frontmatter_loop_stop)
  qed
qed

lemma parseChartBody_prefix:
  "parseChartBody pre i c st b l = Inr r \<Longrightarrow> i \<le> length pre \<Longrightarrow>
   nextIndex r \<le> length pre \<and>
   (foundEndToken r \<longrightarrow> parseChartBody (pre @ rest) i c st b l = Inr r) \<and>
   (\<not> foundEndToken r \<longrightarrow>
      (\<exists>l'. parseChartBody (pre @ rest) i c st b l =
            parseChartBody (pre @ rest) (length pre) (r_chart r) (r_state r) b l'))"
proof (induction pre i c st b l arbitrary: r rule: parseChartBody.induct)
  case (1 lines index chart state stopOnEnd lastStatementWasLink)
  note run = "1.prems"(1) and le = "1.prems"(2)
  let ?ext = "lines @ rest"
  show ?case
  proof (cases "index < length lines")
    case False
    then have "index = length lines" using le by simp
    moreover have "r = \<lparr>nextIndex = index, foundEndToken = False, r_chart = chart, r_state = state\<rparr>"
      using run False by (simp add: body_exhausted)
    ultimately show ?thesis by auto
  next
    case lt: True
    then have lt': "index < length ?ext" by simp
    have tr: "trim (?ext ! index) = trim (lines ! index)" using lt by (simp add: nth_append)
    have le': "Suc index \<le> length lines" using lt by simp
    show ?thesis
    proof (cases "trim (lines ! index) = []")
      case True
      have "parseChartBody lines (index + 1) chart state stopOnEnd lastStatementWasLink = Inr r"
        using run lt True by (simp add: body_blank)
      from "1.IH"(1) [OF lt refl True this] le'
      show ?thesis using lt' tr True by (simp add: body_blank)
    next
      case ne: False
      then have ne': "trim (?ext ! index) \<noteq> []" using tr by simp
      show ?thesis
      proof (cases "classify (trim (lines ! index))")
        case S_end
        then have cl': "classify (trim (?ext ! index)) = S_end" using tr by simp
        have "r = \<lparr>nextIndex = index + 1, foundEndToken = True, r_chart = chart, r_state = state\<rparr>"
          using run lt ne S_end by (simp add: body_end)
        then show ?thesis
          using lt lt' ne' cl' body_end [OF lt' ne' cl'] by simp
      next
        case (S_subgraph sid tt)
        then have cl': "classify (trim (?ext ! index)) = S_subgraph sid tt" using tr by simp
        let ?i = "skip_blank lines (Suc index)"
        note L = body_subgraph [OF lt ne S_subgraph, of chart state stopOnEnd lastStatementWasLink]
        note R = body_subgraph [OF lt' ne' cl', of chart state stopOnEnd lastStatementWasLink]
        have i: "?i < length lines"
          using run L by (auto split: if_splits)
        then have i': "\<not> length lines \<le> skip_blank lines (index + 1)" by simp
        have sk: "skip_blank ?ext (Suc index) = ?i" using skip_blank_prefix [OF i] .
        have tr2: "trim (?ext ! ?i) = trim (lines ! ?i)" using i by (simp add: nth_append)
        obtain d where d: "match_direction (trim (lines ! ?i)) = Some d"
          using run L i by (auto split: if_splits option.splits)
        then have d': "match_direction (trim (lines ! skip_blank lines (index + 1))) = Some d" by simp
        obtain nested where n: "parseChartBody lines (Suc ?i) (new_Subgraph sid tt d) state True False = Inr nested"
          using run L i d by (auto split: if_splits sum.splits)
        then have n': "parseChartBody lines (skip_blank lines (index + 1) + 1) (new_Subgraph sid tt d) state True False = Inr nested"
          by simp
        have f: "foundEndToken nested"
          using run L i d n by (auto split: if_splits)
        then have f': "\<not> \<not> foundEndToken nested" by simp
        have c: "parseChartBody lines (nextIndex nested) (addSubgraph (r_chart nested) chart) (r_state nested) stopOnEnd False = Inr r"
          using run L i d n f by simp
        have "skip_blank lines (index + 1) + 1 \<le> length lines" using i by simp
        from "1.IH"(2) [OF lt refl ne S_subgraph refl i' d' n' this]
        have nn: "nextIndex nested \<le> length lines"
          and ne2: "parseChartBody ?ext (Suc ?i) (new_Subgraph sid tt d) state True False = Inr nested"
          using f by simp_all
        from "1.IH"(3) [OF lt refl ne S_subgraph refl i' d' n' f' c nn]
        show ?thesis
          using R sk tr2 d ne2 f i by simp
      next
        case (S_classDef names sty)
        then have cl': "classify (trim (?ext ! index)) = S_classDef names sty" using tr by simp
        have "parseChartBody lines (index + 1) (parse_classDef names sty chart) state stopOnEnd False = Inr r"
          using run lt ne S_classDef by (simp add: body_classDef)
        from "1.IH"(4) [OF lt refl ne S_classDef this] le'
        show ?thesis using body_classDef [OF lt' ne' cl'] by simp
      next
        case (S_classAttachment ns cls)
        then have cl': "classify (trim (?ext ! index)) = S_classAttachment ns cls" using tr by simp
        have "parseChartBody lines (index + 1) (parse_classAttachment ns cls chart) state stopOnEnd False = Inr r"
          using run lt ne S_classAttachment by (simp add: body_classAttachment)
        from "1.IH"(5) [OF lt refl ne S_classAttachment this] le'
        show ?thesis using body_classAttachment [OF lt' ne' cl'] by simp
      next
        case (S_linkStyle digits sty)
        then have cl': "classify (trim (?ext ! index)) = S_linkStyle digits sty" using tr by simp
        have "parseChartBody lines (index + 1)
                (fst (parse_linkStyle digits sty chart state lastStatementWasLink))
                (snd (parse_linkStyle digits sty chart state lastStatementWasLink)) stopOnEnd False = Inr r"
          using run lt ne S_linkStyle by (simp add: body_linkStyle)
        from "1.IH"(6) [OF lt refl ne S_linkStyle this] le'
        show ?thesis using body_linkStyle [OF lt' ne' cl'] by simp
      next
        case (S_link src' ty label dst)
        then have cl': "classify (trim (?ext ! index)) = S_link src' ty label dst" using tr by simp
        have "parseChartBody lines (index + 1)
                (fst (parse_link src' ty label dst chart state))
                (snd (parse_link src' ty label dst chart state)) stopOnEnd True = Inr r"
          using run lt ne S_link by (simp add: body_link)
        from "1.IH"(7) [OF lt refl ne S_link this] le'
        show ?thesis using body_link [OF lt' ne' cl'] by simp
      next
        case (S_node node)
        then have cl': "classify (trim (?ext ! index)) = S_node node" using tr by simp
        have "parseChartBody lines (index + 1) (addNode node chart) state stopOnEnd False = Inr r"
          using run lt ne S_node by (simp add: body_node)
        from "1.IH"(8) [OF lt refl ne S_node this] le'
        show ?thesis using body_node [OF lt' ne' cl'] by simp
      next
        case S_unsupported
        then show ?thesis using run lt ne by (simp add: body_unsupported)
      qed
    qed
  qed
qed

lemma parse_lines_prefix:
  assumes ok: "parse_lines pre = Inr c"
  shows "\<exists>ch st l'. parse_lines (pre @ rest) =
           (case parseChartBody (pre @ rest) (length pre) ch st False l' of
              Inl e \<Rightarrow> Inl e
            | Inr result \<Rightarrow>
                if foundEndToken result then Inl UnexpectedEnd
                else Inr (resolve (r_state result) (r_chart result)))"
proof -
  let ?ext = "pre @ rest"
  obtain idx t where fm: "parse_frontmatter pre = Inr (idx, t)"
    and decl: "parse_declaration pre idx t = Inr c"
    using ok by (auto simp: parse_lines_def split: sum.splits)
  let ?h = "skip_blank pre idx"
  have h: "?h < length pre"
    using decl by (auto simp: parse_declaration_def Let_def split: if_splits)
  obtain d where d: "match_header (trim (pre ! ?h)) = Some d"
    using decl h by (auto simp: parse_declaration_def Let_def split: if_splits option.splits)
  obtain r where r: "parseChartBody pre (Suc ?h) (new_Chart t d)
      \<lparr>nextLinkIndex = 0, linksByIndex = Map.empty, lastParsedLinkIndex = None\<rparr> False False = Inr r"
    and nf: "\<not> foundEndToken r"
    using decl h d by (auto simp: parse_declaration_def Let_def split: if_splits sum.splits)
  have idx_le: "idx \<le> ?h" by (rule skip_blank_ge)
  let ?i0 = "skip_blank pre 0"
  have fm': "parse_frontmatter ?ext = Inr (idx, t)"
  proof (cases "?i0 < length pre \<and> trim (pre ! ?i0) = ''---''")
    case True
    obtain j t' where f: "frontmatter_loop pre (Suc ?i0) None = (j, t')"
      by (cases "frontmatter_loop pre (Suc ?i0) None")
    have j: "j < length pre" and jt: "trim (pre ! j) = ''---''" and e: "idx = Suc j" "t = t'"
      using fm True f by (auto simp: parse_frontmatter_def Let_def split: if_splits)
    have "skip_blank ?ext 0 = ?i0" using True by (simp add: skip_blank_prefix)
    moreover have "frontmatter_loop ?ext (Suc ?i0) None = (j, t')"
      using frontmatter_loop_prefix [of pre "Suc ?i0" None rest] f j by simp
    ultimately show ?thesis
      using True j jt e by (simp add: parse_frontmatter_def Let_def nth_append)
  next
    case False
    then have e: "idx = ?i0" "t = None"
      using fm by (auto simp: parse_frontmatter_def Let_def split: if_splits)
    then have i0: "?i0 < length pre" using idx_le h by simp
    then have "skip_blank ?ext 0 = ?i0" by (simp add: skip_blank_prefix)
    then show ?thesis
      using False i0 e by (simp add: parse_frontmatter_def Let_def nth_append)
  qed
  have sk: "skip_blank ?ext idx = ?h" using h by (simp add: skip_blank_prefix)
  from parseChartBody_prefix [OF r, of rest] h nf
  obtain l' where b: "parseChartBody ?ext (Suc ?h) (new_Chart t d)
      \<lparr>nextLinkIndex = 0, linksByIndex = Map.empty, lastParsedLinkIndex = None\<rparr> False False =
      parseChartBody ?ext (length pre) (r_chart r) (r_state r) False l'"
    by auto
  have "parse_lines ?ext =
          (case parseChartBody ?ext (length pre) (r_chart r) (r_state r) False l' of
              Inl e \<Rightarrow> Inl e
            | Inr result \<Rightarrow>
                if foundEndToken result then Inl UnexpectedEnd
                else Inr (resolve (r_state result) (r_chart result)))"
    using fm' sk h d b
    by (simp add: parse_lines_def parse_declaration_def Let_def nth_append)
  then show ?thesis by blast
qed

lemma classify_end: "classify ''end'' = S_end"
  by (simp add: classify_def)

lemma parseChartBody_at_end:
  assumes "index < length lines" and "trim (lines ! index) = ''end''"
  shows "parseChartBody lines index chart state stopOnEnd lastStatementWasLink =
           Inr \<lparr>nextIndex = index + 1, foundEndToken = True, r_chart = chart, r_state = state\<rparr>"
  using assms body_end [of index lines chart state stopOnEnd lastStatementWasLink]
  by (simp add: classify_end)

text \<open>
  Claim C8. \<open>parseChartBody\<close> at an \<open>end\<close> line returns to its caller with
  \<open>foundEndToken\<close> set, whatever \<open>stopOnEnd\<close> is; and an input whose lines are a
  document that parses, then an \<open>end\<close> line, then anything, fails with the error
  \<open>Unexpected "end" at root level\<close>.
\<close>

theorem unexpected_end_at_root:
  "(index < length lines \<and> trim (lines ! index) = ''end'' \<longrightarrow>
      parseChartBody lines index chart state stopOnEnd lastStatementWasLink =
        Inr \<lparr>nextIndex = index + 1, foundEndToken = True, r_chart = chart, r_state = state\<rparr>) \<and>
   (parse_lines pre = Inr c \<and> trim e = ''end'' \<and>
    split_char (CHR 0x0A) (replace_crlf input) = pre @ e # post \<longrightarrow>
      parseFlowchart input = Inl UnexpectedEnd)"
proof (intro conjI impI)
  assume "index < length lines \<and> trim (lines ! index) = ''end''"
  then show "parseChartBody lines index chart state stopOnEnd lastStatementWasLink =
        Inr \<lparr>nextIndex = index + 1, foundEndToken = True, r_chart = chart, r_state = state\<rparr>"
    using parseChartBody_at_end by simp
next
  assume a: "parse_lines pre = Inr c \<and> trim e = ''end'' \<and>
    split_char (CHR 0x0A) (replace_crlf input) = pre @ e # post"
  then obtain ch st l' where p: "parse_lines (pre @ e # post) =
           (case parseChartBody (pre @ e # post) (length pre) ch st False l' of
              Inl e \<Rightarrow> Inl e
            | Inr result \<Rightarrow>
                if foundEndToken result then Inl UnexpectedEnd
                else Inr (resolve (r_state result) (r_chart result)))"
    using parse_lines_prefix [of pre c "e # post"] by blast
  have "parseChartBody (pre @ e # post) (length pre) ch st False l' =
          Inr \<lparr>nextIndex = length pre + 1, foundEndToken = True, r_chart = ch, r_state = st\<rparr>"
    using a by (intro parseChartBody_at_end) simp_all
  then show "parseFlowchart input = Inl UnexpectedEnd"
    using a p by (simp add: parseFlowchart_def)
qed

definition end_at_root_example :: string where
  "end_at_root_example =
     join [CHR 0x0A] [''flowchart TD'', ''  subgraph A [a]'', ''    direction LR'', ''    x(x)'', ''  end'', ''end'', ''  y(y)'']"

definition end_at_root_prefix :: "Link chart" where
  "end_at_root_prefix =
     Chart None TD [] []
       [Chart (Some ''a'') LR
          [\<lparr>title = ''x'', shape = RECT_ROUND, node_id = ''x'', className = None\<rparr>]
          [] [] [] [] [] (Some ''A'')]
       [] [] [] None"

theorem unexpected_end_at_root_witness:
  "(1 < length [''flowchart TD'', '' end ''] \<and> trim ([''flowchart TD'', '' end ''] ! 1) = ''end'') \<and>
   parseChartBody [''flowchart TD'', '' end ''] 1 (new_Chart None TD)
     \<lparr>nextLinkIndex = 0, linksByIndex = Map.empty, lastParsedLinkIndex = None\<rparr> True False =
     Inr \<lparr>nextIndex = 2, foundEndToken = True, r_chart = new_Chart None TD,
          r_state = \<lparr>nextLinkIndex = 0, linksByIndex = Map.empty, lastParsedLinkIndex = None\<rparr>\<rparr> \<and>
   parse_lines [''flowchart TD'', ''  subgraph A [a]'', ''    direction LR'', ''    x(x)'', ''  end'']
     = Inr end_at_root_prefix \<and>
   trim ''end'' = ''end'' \<and>
   split_char (CHR 0x0A) (replace_crlf end_at_root_example) =
     [''flowchart TD'', ''  subgraph A [a]'', ''    direction LR'', ''    x(x)'', ''  end''] @ ''end'' # [''  y(y)''] \<and>
   parseFlowchart end_at_root_example = Inl UnexpectedEnd"
proof -
  have t1: "1 < length [''flowchart TD'', '' end ''] \<and> trim ([''flowchart TD'', '' end ''] ! 1) = ''end''"
    by code_simp
  have c: "parse_lines [''flowchart TD'', ''  subgraph A [a]'', ''    direction LR'', ''    x(x)'', ''  end'']
     = Inr end_at_root_prefix"
    by code_simp
  have t: "trim ''end'' = ''end''" by code_simp
  have s: "split_char (CHR 0x0A) (replace_crlf end_at_root_example) =
     [''flowchart TD'', ''  subgraph A [a]'', ''    direction LR'', ''    x(x)'', ''  end''] @ ''end'' # [''  y(y)'']"
    by code_simp
  show ?thesis
    using unexpected_end_at_root [of 1 "[''flowchart TD'', '' end '']" "new_Chart None TD"
        "\<lparr>nextLinkIndex = 0, linksByIndex = Map.empty, lastParsedLinkIndex = None\<rparr>" True False
        "[''flowchart TD'', ''  subgraph A [a]'', ''    direction LR'', ''    x(x)'', ''  end'']"
        end_at_root_prefix "''end''" end_at_root_example "[''  y(y)'']"] t1 c t s
    by simp
qed

lemma match_subgraph_classify:
  assumes "match_subgraph line = Some (sid, t)"
  shows "line \<noteq> [] \<and> classify line = S_subgraph sid t"
proof -
  have s: "starts_with ''subgraph'' line"
    using assms by (simp add: match_subgraph_def split: if_splits)
  then have "line \<noteq> []" "line \<noteq> ''end''"
    by (auto simp: starts_with_def)
  then show ?thesis using assms by (simp add: classify_def)
qed

lemma skip_blank_to:
  "a \<le> j \<Longrightarrow> j < length lines \<Longrightarrow> trim (lines ! j) \<noteq> [] \<Longrightarrow>
   (\<forall>i. a \<le> i \<and> i < j \<longrightarrow> trim (lines ! i) = []) \<Longrightarrow> skip_blank lines a = j"
proof (induction "j - a" arbitrary: a)
  case 0
  then have "a = j" by simp
  then show ?case using 0 by (simp add: skip_blank_stop)
next
  case (Suc n)
  then have lt: "a < j" by simp
  then have "trim (lines ! a) = []" using Suc.prems by simp
  then have "skip_blank lines a = skip_blank lines (Suc a)"
    using lt Suc.prems by (simp add: skip_blank_blank)
  moreover have "skip_blank lines (Suc a) = j"
    using Suc.hyps(1) [of "Suc a"] Suc.hyps(2) Suc.prems lt by simp
  ultimately show ?case by simp
qed

lemma parseChartBody_missing_direction:
  assumes "index < length lines"
    and "match_subgraph (trim (lines ! index)) = Some (sid, t)"
    and "index < j" and "j < length lines"
    and "\<forall>i. index < i \<and> i < j \<longrightarrow> trim (lines ! i) = []"
    and "trim (lines ! j) \<noteq> []"
    and "match_direction (trim (lines ! j)) = None"
  shows "parseChartBody lines index chart state stopOnEnd lastStatementWasLink =
           Inl (SubgraphMissingDirection sid)"
proof -
  have c: "trim (lines ! index) \<noteq> []" "classify (trim (lines ! index)) = S_subgraph sid t"
    using match_subgraph_classify [OF assms(2)] by simp_all
  have "skip_blank lines (Suc index) = j"
    using assms by (intro skip_blank_to) auto
  then show ?thesis
    using body_subgraph [OF assms(1) c, of chart state stopOnEnd lastStatementWasLink] assms
    by simp
qed

text \<open>
  Claim C7. When \<open>parseChartBody\<close> is at a \<open>subgraph\<close> header line and the next line
  that is not blank is not a \<open>direction\<close> line, the call fails with the error
  \<open>Subgraph "<id>" is missing a valid direction line\<close> of that sub-grouping; so does
  the parse of an input whose lines are a document that parses, then such a header,
  blank lines and such a line.
\<close>

theorem missing_direction_error:
  "(index < length lines \<and> match_subgraph (trim (lines ! index)) = Some (sid, t) \<and>
    index < j \<and> j < length lines \<and> (\<forall>i. index < i \<and> i < j \<longrightarrow> trim (lines ! i) = []) \<and>
    trim (lines ! j) \<noteq> [] \<and> match_direction (trim (lines ! j)) = None \<longrightarrow>
      parseChartBody lines index chart state stopOnEnd lastStatementWasLink =
        Inl (SubgraphMissingDirection sid)) \<and>
   (parse_lines pre = Inr c \<and> match_subgraph (trim header) = Some (sid', t') \<and>
    list_all (\<lambda>b. trim b = []) blanks \<and> trim next_line \<noteq> [] \<and>
    match_direction (trim next_line) = None \<and>
    split_char (CHR 0x0A) (replace_crlf input) = pre @ header # blanks @ next_line # post \<longrightarrow>
      parseFlowchart input = Inl (SubgraphMissingDirection sid'))"
proof (intro conjI impI)
  assume "index < length lines \<and> match_subgraph (trim (lines ! index)) = Some (sid, t) \<and>
    index < j \<and> j < length lines \<and> (\<forall>i. index < i \<and> i < j \<longrightarrow> trim (lines ! i) = []) \<and>
    trim (lines ! j) \<noteq> [] \<and> match_direction (trim (lines ! j)) = None"
  then show "parseChartBody lines index chart state stopOnEnd lastStatementWasLink =
        Inl (SubgraphMissingDirection sid)"
    using parseChartBody_missing_direction by blast
next
  assume a: "parse_lines pre = Inr c \<and> match_subgraph (trim header) = Some (sid', t') \<and>
    list_all (\<lambda>b. trim b = []) blanks \<and> trim next_line \<noteq> [] \<and>
    match_direction (trim next_line) = None \<and>
    split_char (CHR 0x0A) (replace_crlf input) = pre @ header # blanks @ next_line # post"
  let ?rest = "header # blanks @ next_line # post"
  let ?ext = "pre @ ?rest"
  let ?j = "length pre + 1 + length blanks"
  obtain ch st l' where p: "parse_lines ?ext =
           (case parseChartBody ?ext (length pre) ch st False l' of
              Inl e \<Rightarrow> Inl e
            | Inr result \<Rightarrow>
                if foundEndToken result then Inl UnexpectedEnd
                else Inr (resolve (r_state result) (r_chart result)))"
    using a parse_lines_prefix [of pre c ?rest] by blast
  have n0: "?ext ! length pre = header" by simp
  have n1: "?ext ! ?j = next_line"
    by (simp add: nth_append)
  have bl: "trim (?ext ! i) = []" if "length pre < i" "i < ?j" for i
  proof -
    define k where "k = i - length pre - 1"
    have k: "i = length pre + Suc k" "k < length blanks"
      using that unfolding k_def by arith+
    have "?ext ! (length pre + Suc k) = blanks ! k"
      using k(2) by (simp add: nth_append_length_plus nth_append)
    then show ?thesis using a k by (simp add: list_all_length)
  qed
  have "parseChartBody ?ext (length pre) ch st False l' = Inl (SubgraphMissingDirection sid')"
  proof (rule parseChartBody_missing_direction [where j = ?j and t = t'])
    show "length pre < length ?ext" by simp
    show "match_subgraph (trim (?ext ! length pre)) = Some (sid', t')" using a n0 by simp
    show "length pre < ?j" by simp
    show "?j < length ?ext" by simp
    show "\<forall>i. length pre < i \<and> i < ?j \<longrightarrow> trim (?ext ! i) = []" using bl by blast
    show "trim (?ext ! ?j) \<noteq> []" using a n1 by simp
    show "match_direction (trim (?ext ! ?j)) = None" using a n1 by simp
  qed
  then show "parseFlowchart input = Inl (SubgraphMissingDirection sid')"
    using a p by (simp add: parseFlowchart_def)
qed

definition missing_direction_example :: string where
  "missing_direction_example =
     join [CHR 0x0A] [''flowchart TD'', ''  a(a)'', ''  subgraph G [group]'', [], ''    b(b)'', ''  end'']"

theorem missing_direction_error_witness:
  "(0 < length [''subgraph S'', '' '', ''x --> y''] \<and>
    match_subgraph (trim ([''subgraph S'', '' '', ''x --> y''] ! 0)) = Some (''S'', None) \<and>
    (0::nat) < 2 \<and> 2 < length [''subgraph S'', '' '', ''x --> y''] \<and>
    trim ([''subgraph S'', '' '', ''x --> y''] ! 1) = [] \<and>
    trim ([''subgraph S'', '' '', ''x --> y''] ! 2) \<noteq> [] \<and>
    match_direction (trim ([''subgraph S'', '' '', ''x --> y''] ! 2)) = None) \<and>
   parseChartBody [''subgraph S'', '' '', ''x --> y''] 0 (new_Chart None TD)
     \<lparr>nextLinkIndex = 0, linksByIndex = Map.empty, lastParsedLinkIndex = None\<rparr> False False =
     Inl (SubgraphMissingDirection ''S'') \<and>
   parse_lines [''flowchart TD'', ''  a(a)''] =
     Inr (Chart None TD [\<lparr>title = ''a'', shape = RECT_ROUND, node_id = ''a'', className = None\<rparr>]
                 [] [] [] [] [] None) \<and>
   match_subgraph (trim ''  subgraph G [group]'') = Some (''G'', Some ''group'') \<and>
   list_all (\<lambda>b. trim b = []) [[]] \<and> trim ''    b(b)'' \<noteq> [] \<and>
   match_direction (trim ''    b(b)'') = None \<and>
   split_char (CHR 0x0A) (replace_crlf missing_direction_example) =
     [''flowchart TD'', ''  a(a)''] @ ''  subgraph G [group]'' # [[]] @ ''    b(b)'' # [''  end''] \<and>
   parseFlowchart missing_direction_example = Inl (SubgraphMissingDirection ''G'')"
proof -
  let ?ls = "[''subgraph S'', '' '', ''x --> y'']"
  have q: "\<forall>i. 0 < i \<and> i < 2 \<longrightarrow> trim (?ls ! i) = []"
  proof (intro allI impI)
    fix i :: nat assume "0 < i \<and> i < 2"
    then have "i = 1" by arith
    then show "trim (?ls ! i) = []" by (simp add: trim_def is_ws_def)
  qed
  have h1: "0 < length ?ls \<and> match_subgraph (trim (?ls ! 0)) = Some (''S'', None) \<and>
    (0::nat) < 2 \<and> 2 < length ?ls \<and> trim (?ls ! 1) = [] \<and> trim (?ls ! 2) \<noteq> [] \<and>
    match_direction (trim (?ls ! 2)) = None"
    by code_simp
  have h2: "parse_lines [''flowchart TD'', ''  a(a)''] =
     Inr (Chart None TD [\<lparr>title = ''a'', shape = RECT_ROUND, node_id = ''a'', className = None\<rparr>]
                 [] [] [] [] [] None)"
    by code_simp
  have h3: "match_subgraph (trim ''  subgraph G [group]'') = Some (''G'', Some ''group'') \<and>
   list_all (\<lambda>b. trim b = []) [[]] \<and> trim ''    b(b)'' \<noteq> [] \<and>
   match_direction (trim ''    b(b)'') = None"
    by code_simp
  have h4: "split_char (CHR 0x0A) (replace_crlf missing_direction_example) =
     [''flowchart TD'', ''  a(a)''] @ ''  subgraph G [group]'' # [[]] @ ''    b(b)'' # [''  end'']"
    by code_simp
  show ?thesis
    using missing_direction_error [of 0 ?ls "''S''" None 2 "new_Chart None TD"
        "\<lparr>nextLinkIndex = 0, linksByIndex = Map.empty, lastParsedLinkIndex = None\<rparr>" False False
        "[''flowchart TD'', ''  a(a)'']"
        "Chart None TD [\<lparr>title = ''a'', shape = RECT_ROUND, node_id = ''a'', className = None\<rparr>] [] [] [] [] [] None"
        "''  subgraph G [group]''" "''G''" "Some ''group''" "[[]]" "''    b(b)''"
        missing_direction_example "[''  end'']"]
      q h1 h2 h3 h4
    by simp
qed

lemma starts_with_append: "starts_with p s \<Longrightarrow> \<exists>r. s = p @ r"
  unfolding starts_with_def by (metis append_take_drop_id)

lemma match_linkStyle_classify:
  assumes "match_linkStyle line = Some (digits, st)"
  shows "line \<noteq> [] \<and> classify line = S_linkStyle digits st"
proof -
  have s: "starts_with ''linkStyle'' line"
    using assms by (simp add: match_linkStyle_def split: if_splits)
  then obtain r where r: "line = ''linkStyle'' @ r" using starts_with_append by blast
  have "line \<noteq> []" "line \<noteq> ''end''"
    "\<not> starts_with ''subgraph'' line" "\<not> starts_with ''classDef'' line"
    "\<not> starts_with ''class'' line"
    by (simp_all add: r starts_with_def)
  then show ?thesis
    using assms
    by (simp add: classify_def match_subgraph_def match_classDef_def match_classAttachment_def)
qed

text \<open>
  The value of the variable \<open>lastStatementWasLink\<close> when the loop of \<open>parseChartBody\<close>,
  entered at line \<open>i\<close> with the value \<open>l\<close>, has read all the lines: whether the last
  line that is not blank is a link statement.
\<close>

fun is_link_statement :: "statement \<Rightarrow> bool" where
  "is_link_statement (S_link s ty label d) = True"
| "is_link_statement _ = False"

definition lastStatementWasLink_at :: "string list \<Rightarrow> nat \<Rightarrow> bool \<Rightarrow> bool" where
  "lastStatementWasLink_at lines i l =
     (let statements = filter (\<lambda>line. line \<noteq> []) (map trim (drop i lines))
      in if statements = [] then l else is_link_statement (classify (last statements)))"

text \<open>
  The condition of the source on a \<open>linkStyle\<close> statement of index \<open>k\<close>, read after the
  lines \<open>pre\<close> from line \<open>i\<close> on:
  \<open>lastStatementWasLink && state.lastParsedLinkIndex === linkIndex && link && !link.style\<close>.
\<close>

definition attached_inline :: "string list \<Rightarrow> nat \<Rightarrow> ParseState \<Rightarrow> nat \<Rightarrow> bool" where
  "attached_inline pre i state k =
     (lastStatementWasLink_at pre i False \<and> lastParsedLinkIndex state = Some k \<and>
      (case linksByIndex state k of None \<Rightarrow> False | Some link \<Rightarrow> \<not> has_style (style link)))"

text \<open>\<open>link.style = style\<close> on the link of index \<open>k\<close> of the table.\<close>

definition attach_style :: "nat \<Rightarrow> StyleValue \<Rightarrow> ParseState \<Rightarrow> ParseState" where
  "attach_style k s state =
     state\<lparr>linksByIndex := (linksByIndex state)(k \<mapsto> (the (linksByIndex state k))\<lparr>style := Some s\<rparr>)\<rparr>"

text \<open>The container with the style given to the last of its links.\<close>

fun style_last_link :: "StyleValue \<Rightarrow> Link chart \<Rightarrow> Link chart" where
  "style_last_link s (Chart t d ns ls sgs cds cas pls i) =
     Chart t d ns (butlast ls @ [(last ls)\<lparr>style := Some s\<rparr>]) sgs cds cas pls i"

text \<open>All the table keys of a container tree are below \<open>n\<close>.\<close>

definition keys_below :: "nat \<Rightarrow> nat chart \<Rightarrow> bool" where
  "keys_below n ch = (\<forall>key \<in> set_chart ch. key < n)"

text \<open>
  The state after a link statement: the last link of the container is the link parsed
  last, it is in the table without a style, and its key is above all the other keys of
  the container.
\<close>

definition link_pending :: "nat chart \<Rightarrow> ParseState \<Rightarrow> bool" where
  "link_pending ch st =
     (links ch \<noteq> [] \<and> lastParsedLinkIndex st = Some (last (links ch)) \<and>
      (\<exists>link. linksByIndex st (last (links ch)) = Some link \<and> style link = None) \<and>
      (\<forall>key \<in> set (butlast (links ch)) \<union> \<Union> (set_chart ` set (subgraphs ch)).
          key < last (links ch)))"

lemma flag_exhausted: "\<not> i < length lines \<Longrightarrow> lastStatementWasLink_at lines i l = l"
  by (simp add: lastStatementWasLink_at_def)

lemma flag_blank:
  assumes "i < length lines" and "trim (lines ! i) = []"
  shows "lastStatementWasLink_at lines i l = lastStatementWasLink_at lines (Suc i) l"
proof -
  have "drop i lines = lines ! i # drop (Suc i) lines"
    using assms(1) by (simp add: Cons_nth_drop_Suc)
  then show ?thesis using assms(2) by (simp add: lastStatementWasLink_at_def)
qed

lemma flag_skip:
  assumes "i \<le> j" and "j < length lines" and "trim (lines ! j) \<noteq> []"
  shows "lastStatementWasLink_at lines i l =
         lastStatementWasLink_at lines (Suc j) (is_link_statement (classify (trim (lines ! j))))"
proof -
  have "drop (j - i) (drop i lines) = drop j lines" using assms(1) by simp
  then have "drop i lines = take (j - i) (drop i lines) @ drop j lines"
    by (metis append_take_drop_id)
  moreover have "drop j lines = lines ! j # drop (Suc j) lines"
    using assms(2) by (simp add: Cons_nth_drop_Suc)
  ultimately have d: "drop i lines = take (j - i) (drop i lines) @ lines ! j # drop (Suc j) lines"
    by simp
  show ?thesis
    unfolding lastStatementWasLink_at_def
    by (subst d) (simp add: assms(3) Let_def)
qed

lemma flag_step:
  "i < length lines \<Longrightarrow> trim (lines ! i) \<noteq> [] \<Longrightarrow>
   lastStatementWasLink_at lines i l =
   lastStatementWasLink_at lines (Suc i) (is_link_statement (classify (trim (lines ! i))))"
  by (rule flag_skip) simp_all

lemma parseChartBody_end_line:
  "parseChartBody lines i c st b l = Inr r \<Longrightarrow> foundEndToken r \<Longrightarrow>
   i < nextIndex r \<and> nextIndex r \<le> length lines \<and>
   trim (lines ! (nextIndex r - 1)) \<noteq> [] \<and>
   classify (trim (lines ! (nextIndex r - 1))) = S_end"
proof (induction lines i c st b l arbitrary: r rule: parseChartBody.induct)
  case (1 lines index chart state stopOnEnd lastStatementWasLink)
  note run = "1.prems"(1) and f = "1.prems"(2)
  show ?case
  proof (cases "index < length lines")
    case False
    then have "r = \<lparr>nextIndex = index, foundEndToken = False, r_chart = chart, r_state = state\<rparr>"
      using run by (simp add: body_exhausted)
    then show ?thesis using f by simp
  next
    case lt: True
    show ?thesis
    proof (cases "trim (lines ! index) = []")
      case True
      have "parseChartBody lines (index + 1) chart state stopOnEnd lastStatementWasLink = Inr r"
        using run lt True by (simp add: body_blank)
      from "1.IH"(1) [OF lt refl True this f] show ?thesis by simp
    next
      case ne: False
      show ?thesis
      proof (cases "classify (trim (lines ! index))")
        case S_end
        have "r = \<lparr>nextIndex = index + 1, foundEndToken = True, r_chart = chart, r_state = state\<rparr>"
          using run lt ne S_end by (simp add: body_end)
        then show ?thesis using lt ne S_end by simp
      next
        case (S_subgraph sid tt)
        let ?i = "skip_blank lines (Suc index)"
        note L = body_subgraph [OF lt ne S_subgraph, of chart state stopOnEnd lastStatementWasLink]
        have i: "?i < length lines"
          using run L by (auto split: if_splits)
        then have i': "\<not> length lines \<le> skip_blank lines (index + 1)" by simp
        obtain d where d: "match_direction (trim (lines ! ?i)) = Some d"
          using run L i by (auto split: if_splits option.splits)
        then have d': "match_direction (trim (lines ! skip_blank lines (index + 1))) = Some d" by simp
        obtain nested where n: "parseChartBody lines (Suc ?i) (new_Subgraph sid tt d) state True False = Inr nested"
          using run L i d by (auto split: if_splits sum.splits)
        then have n': "parseChartBody lines (skip_blank lines (index + 1) + 1) (new_Subgraph sid tt d) state True False = Inr nested"
          by simp
        have fn: "foundEndToken nested"
          using run L i d n by (auto split: if_splits)
        then have f': "\<not> \<not> foundEndToken nested" by simp
        have c: "parseChartBody lines (nextIndex nested) (addSubgraph (r_chart nested) chart) (r_state nested) stopOnEnd False = Inr r"
          using run L i d n fn by simp
        from "1.IH"(2) [OF lt refl ne S_subgraph refl i' d' n' fn]
        have a: "Suc ?i < nextIndex nested" by simp
        have b: "Suc index \<le> ?i" by (rule skip_blank_ge)
        from "1.IH"(3) [OF lt refl ne S_subgraph refl i' d' n' f' c f] a b
        show ?thesis by simp
      next
        case (S_classDef names sty)
        have "parseChartBody lines (index + 1) (parse_classDef names sty chart) state stopOnEnd False = Inr r"
          using run lt ne S_classDef by (simp add: body_classDef)
        from "1.IH"(4) [OF lt refl ne S_classDef this f]
        show ?thesis by simp
      next
        case (S_classAttachment ns cls)
        have "parseChartBody lines (index + 1) (parse_classAttachment ns cls chart) state stopOnEnd False = Inr r"
          using run lt ne S_classAttachment by (simp add: body_classAttachment)
        from "1.IH"(5) [OF lt refl ne S_classAttachment this f]
        show ?thesis by simp
      next
        case (S_linkStyle digits sty)
        have "parseChartBody lines (index + 1)
                (fst (parse_linkStyle digits sty chart state lastStatementWasLink))
                (snd (parse_linkStyle digits sty chart state lastStatementWasLink)) stopOnEnd False = Inr r"
          using run lt ne S_linkStyle by (simp add: body_linkStyle)
        from "1.IH"(6) [OF lt refl ne S_linkStyle this f]
        show ?thesis by simp
      next
        case (S_link src' ty label dst)
        have "parseChartBody lines (index + 1)
                (fst (parse_link src' ty label dst chart state))
                (snd (parse_link src' ty label dst chart state)) stopOnEnd True = Inr r"
          using run lt ne S_link by (simp add: body_link)
        from "1.IH"(7) [OF lt refl ne S_link this f]
        show ?thesis by simp
      next
        case (S_node node)
        have "parseChartBody lines (index + 1) (addNode node chart) state stopOnEnd False = Inr r"
          using run lt ne S_node by (simp add: body_node)
        from "1.IH"(8) [OF lt refl ne S_node this f]
        show ?thesis by simp
      next
        case S_unsupported
        then show ?thesis using run lt ne by (simp add: body_unsupported)
      qed
    qed
  qed
qed

lemma flag_after_subgraph:
  assumes "parseChartBody lines j c st b l' = Inr nested" and "foundEndToken nested"
    and "i \<le> j"
  shows "lastStatementWasLink_at lines i l = lastStatementWasLink_at lines (nextIndex nested) False"
proof -
  note e = parseChartBody_end_line [OF assms(1,2)]
  have "lastStatementWasLink_at lines i l =
        lastStatementWasLink_at lines (Suc (nextIndex nested - 1))
          (is_link_statement (classify (trim (lines ! (nextIndex nested - 1)))))"
  proof (rule flag_skip)
    show "i \<le> nextIndex nested - 1" using e assms(3) by arith
    show "nextIndex nested - 1 < length lines" using e by arith
    show "trim (lines ! (nextIndex nested - 1)) \<noteq> []" using e by simp
  qed
  moreover have "Suc (nextIndex nested - 1) = nextIndex nested" using e by arith
  ultimately show ?thesis using e by simp
qed

lemma parseChartBody_prefix_flag:
  "parseChartBody pre i c st b l = Inr r \<Longrightarrow> \<not> foundEndToken r \<Longrightarrow> i \<le> length pre \<Longrightarrow>
   parseChartBody (pre @ rest) i c st b l =
     parseChartBody (pre @ rest) (length pre) (r_chart r) (r_state r) b
       (lastStatementWasLink_at pre i l)"
proof (induction pre i c st b l arbitrary: r rule: parseChartBody.induct)
  case (1 lines index chart state stopOnEnd lastStatementWasLink)
  note run = "1.prems"(1) and nf = "1.prems"(2) and le = "1.prems"(3)
  let ?ext = "lines @ rest"
  show ?case
  proof (cases "index < length lines")
    case False
    then have "index = length lines" using le by simp
    moreover have "r = \<lparr>nextIndex = index, foundEndToken = False, r_chart = chart, r_state = state\<rparr>"
      using run False by (simp add: body_exhausted)
    ultimately show ?thesis by (simp add: flag_exhausted)
  next
    case lt: True
    then have lt': "index < length ?ext" by simp
    have tr: "trim (?ext ! index) = trim (lines ! index)" using lt by (simp add: nth_append)
    have le': "Suc index \<le> length lines" using lt by simp
    show ?thesis
    proof (cases "trim (lines ! index) = []")
      case True
      have "parseChartBody lines (index + 1) chart state stopOnEnd lastStatementWasLink = Inr r"
        using run lt True by (simp add: body_blank)
      from "1.IH"(1) [OF lt refl True this nf] le'
      show ?thesis using lt' tr True by (simp add: body_blank flag_blank [OF lt True])
    next
      case ne: False
      then have ne': "trim (?ext ! index) \<noteq> []" using tr by simp
      note fs = flag_step [OF lt ne, of lastStatementWasLink]
      show ?thesis
      proof (cases "classify (trim (lines ! index))")
        case S_end
        have "r = \<lparr>nextIndex = index + 1, foundEndToken = True, r_chart = chart, r_state = state\<rparr>"
          using run lt ne S_end by (simp add: body_end)
        then show ?thesis using nf by simp
      next
        case (S_subgraph sid tt)
        then have cl': "classify (trim (?ext ! index)) = S_subgraph sid tt" using tr by simp
        let ?i = "skip_blank lines (Suc index)"
        note L = body_subgraph [OF lt ne S_subgraph, of chart state stopOnEnd lastStatementWasLink]
        note R = body_subgraph [OF lt' ne' cl', of chart state stopOnEnd lastStatementWasLink]
        have i: "?i < length lines"
          using run L by (auto split: if_splits)
        then have i': "\<not> length lines \<le> skip_blank lines (index + 1)" by simp
        have sk: "skip_blank ?ext (Suc index) = ?i" using skip_blank_prefix [OF i] .
        have tr2: "trim (?ext ! ?i) = trim (lines ! ?i)" using i by (simp add: nth_append)
        obtain d where d: "match_direction (trim (lines ! ?i)) = Some d"
          using run L i by (auto split: if_splits option.splits)
        then have d': "match_direction (trim (lines ! skip_blank lines (index + 1))) = Some d" by simp
        obtain nested where n: "parseChartBody lines (Suc ?i) (new_Subgraph sid tt d) state True False = Inr nested"
          using run L i d by (auto split: if_splits sum.splits)
        then have n': "parseChartBody lines (skip_blank lines (index + 1) + 1) (new_Subgraph sid tt d) state True False = Inr nested"
          by simp
        have f: "foundEndToken nested"
          using run L i d n by (auto split: if_splits)
        then have f': "\<not> \<not> foundEndToken nested" by simp
        have c: "parseChartBody lines (nextIndex nested) (addSubgraph (r_chart nested) chart) (r_state nested) stopOnEnd False = Inr r"
          using run L i d n f by simp
        have "Suc ?i \<le> length lines" using i by simp
        from parseChartBody_prefix [OF n this, of rest]
        have nn: "nextIndex nested \<le> length lines"
          and ne2: "parseChartBody ?ext (Suc ?i) (new_Subgraph sid tt d) state True False = Inr nested"
          using f by simp_all
        have "index \<le> Suc ?i" using skip_blank_ge [of "Suc index" lines] by simp
        note fl = flag_after_subgraph [OF n f this, of lastStatementWasLink]
        from "1.IH"(3) [OF lt refl ne S_subgraph refl i' d' n' f' c nf nn]
        show ?thesis
          using R sk tr2 d ne2 f i fl by simp
      next
        case (S_classDef names sty)
        then have cl': "classify (trim (?ext ! index)) = S_classDef names sty" using tr by simp
        have "parseChartBody lines (index + 1) (parse_classDef names sty chart) state stopOnEnd False = Inr r"
          using run lt ne S_classDef by (simp add: body_classDef)
        from "1.IH"(4) [OF lt refl ne S_classDef this nf] le'
        show ?thesis using body_classDef [OF lt' ne' cl'] fs S_classDef by simp
      next
        case (S_classAttachment ns cls)
        then have cl': "classify (trim (?ext ! index)) = S_classAttachment ns cls" using tr by simp
        have "parseChartBody lines (index + 1) (parse_classAttachment ns cls chart) state stopOnEnd False = Inr r"
          using run lt ne S_classAttachment by (simp add: body_classAttachment)
        from "1.IH"(5) [OF lt refl ne S_classAttachment this nf] le'
        show ?thesis using body_classAttachment [OF lt' ne' cl'] fs S_classAttachment by simp
      next
        case (S_linkStyle digits sty)
        then have cl': "classify (trim (?ext ! index)) = S_linkStyle digits sty" using tr by simp
        have "parseChartBody lines (index + 1)
                (fst (parse_linkStyle digits sty chart state lastStatementWasLink))
                (snd (parse_linkStyle digits sty chart state lastStatementWasLink)) stopOnEnd False = Inr r"
          using run lt ne S_linkStyle by (simp add: body_linkStyle)
        from "1.IH"(6) [OF lt refl ne S_linkStyle this nf] le'
        show ?thesis using body_linkStyle [OF lt' ne' cl'] fs S_linkStyle by simp
      next
        case (S_link src' ty label dst)
        then have cl': "classify (trim (?ext ! index)) = S_link src' ty label dst" using tr by simp
        have "parseChartBody lines (index + 1)
                (fst (parse_link src' ty label dst chart state))
                (snd (parse_link src' ty label dst chart state)) stopOnEnd True = Inr r"
          using run lt ne S_link by (simp add: body_link)
        from "1.IH"(7) [OF lt refl ne S_link this nf] le'
        show ?thesis using body_link [OF lt' ne' cl'] fs S_link by simp
      next
        case (S_node node)
        then have cl': "classify (trim (?ext ! index)) = S_node node" using tr by simp
        have "parseChartBody lines (index + 1) (addNode node chart) state stopOnEnd False = Inr r"
          using run lt ne S_node by (simp add: body_node)
        from "1.IH"(8) [OF lt refl ne S_node this nf] le'
        show ?thesis using body_node [OF lt' ne' cl'] fs S_node by simp
      next
        case S_unsupported
        then show ?thesis using run lt ne by (simp add: body_unsupported)
      qed
    qed
  qed
qed

lemma keys_below_simps:
  "keys_below n (new_Subgraph sid tt d)"
  "keys_below n (addNode node ch) = keys_below n ch"
  "keys_below n (parse_classDef names sty ch) = keys_below n ch"
  "keys_below n (parse_classAttachment ns cls ch) = keys_below n ch"
  "keys_below n (addLinkStyle p s ch) = keys_below n ch"
  "keys_below n (addLink k ch) = (k < n \<and> keys_below n ch)"
  "keys_below n (addSubgraph sub ch) = (keys_below n sub \<and> keys_below n ch)"
  by (cases ch; auto simp: keys_below_def new_Subgraph_def parse_classDef_def
        parse_classAttachment_def Let_def)+

lemma keys_below_mono: "keys_below m ch \<Longrightarrow> m \<le> n \<Longrightarrow> keys_below n ch"
  by (auto simp: keys_below_def)

lemma parse_linkStyle_keys:
  "keys_below n (fst (parse_linkStyle digits sty ch st l)) = keys_below n ch"
  "nextLinkIndex (snd (parse_linkStyle digits sty ch st l)) = nextLinkIndex st"
  by (simp_all add: parse_linkStyle_def Let_def keys_below_simps split: option.splits)

lemma parse_link_keys:
  assumes "keys_below (nextLinkIndex st) ch"
  shows "keys_below (nextLinkIndex (snd (parse_link s ty label d ch st)))
           (fst (parse_link s ty label d ch st))"
    and "nextLinkIndex (snd (parse_link s ty label d ch st)) = Suc (nextLinkIndex st)"
    and "link_pending (fst (parse_link s ty label d ch st)) (snd (parse_link s ty label d ch st))"
proof -
  show "keys_below (nextLinkIndex (snd (parse_link s ty label d ch st)))
           (fst (parse_link s ty label d ch st))"
    using keys_below_mono [OF assms, of "Suc (nextLinkIndex st)"]
    by (simp add: parse_link_def Let_def keys_below_simps)
  show "nextLinkIndex (snd (parse_link s ty label d ch st)) = Suc (nextLinkIndex st)"
    by (simp add: parse_link_def Let_def)
  show "link_pending (fst (parse_link s ty label d ch st)) (snd (parse_link s ty label d ch st))"
    using assms
    by (cases ch) (auto simp: parse_link_def Let_def link_pending_def keys_below_def)
qed

lemma parseChartBody_links:
  "parseChartBody lines i c st b l = Inr r \<Longrightarrow> keys_below (nextLinkIndex st) c \<Longrightarrow>
   (l \<longrightarrow> link_pending c st) \<Longrightarrow>
   nextLinkIndex st \<le> nextLinkIndex (r_state r) \<and>
   keys_below (nextLinkIndex (r_state r)) (r_chart r) \<and>
   (\<not> foundEndToken r \<and> lastStatementWasLink_at lines i l \<longrightarrow>
      link_pending (r_chart r) (r_state r))"
proof (induction lines i c st b l arbitrary: r rule: parseChartBody.induct)
  case (1 lines index chart state stopOnEnd lastStatementWasLink)
  note run = "1.prems"(1) and kb = "1.prems"(2) and lp = "1.prems"(3)
  show ?case
  proof (cases "index < length lines")
    case False
    then have "r = \<lparr>nextIndex = index, foundEndToken = False, r_chart = chart, r_state = state\<rparr>"
      using run by (simp add: body_exhausted)
    then show ?thesis using kb lp False by (simp add: flag_exhausted)
  next
    case lt: True
    show ?thesis
    proof (cases "trim (lines ! index) = []")
      case True
      have "parseChartBody lines (index + 1) chart state stopOnEnd lastStatementWasLink = Inr r"
        using run lt True by (simp add: body_blank)
      from "1.IH"(1) [OF lt refl True this kb lp]
      show ?thesis by (simp add: flag_blank [OF lt True])
    next
      case ne: False
      note fs = flag_step [OF lt ne, of lastStatementWasLink]
      show ?thesis
      proof (cases "classify (trim (lines ! index))")
        case S_end
        have "r = \<lparr>nextIndex = index + 1, foundEndToken = True, r_chart = chart, r_state = state\<rparr>"
          using run lt ne S_end by (simp add: body_end)
        then show ?thesis using kb by simp
      next
        case (S_subgraph sid tt)
        let ?i = "skip_blank lines (Suc index)"
        note L = body_subgraph [OF lt ne S_subgraph, of chart state stopOnEnd lastStatementWasLink]
        have i: "?i < length lines"
          using run L by (auto split: if_splits)
        then have i': "\<not> length lines \<le> skip_blank lines (index + 1)" by simp
        obtain d where d: "match_direction (trim (lines ! ?i)) = Some d"
          using run L i by (auto split: if_splits option.splits)
        then have d': "match_direction (trim (lines ! skip_blank lines (index + 1))) = Some d" by simp
        obtain nested where n: "parseChartBody lines (Suc ?i) (new_Subgraph sid tt d) state True False = Inr nested"
          using run L i d by (auto split: if_splits sum.splits)
        then have n': "parseChartBody lines (skip_blank lines (index + 1) + 1) (new_Subgraph sid tt d) state True False = Inr nested"
          by simp
        have f: "foundEndToken nested"
          using run L i d n by (auto split: if_splits)
        then have f': "\<not> \<not> foundEndToken nested" by simp
        have c: "parseChartBody lines (nextIndex nested) (addSubgraph (r_chart nested) chart) (r_state nested) stopOnEnd False = Inr r"
          using run L i d n f by simp
        have k0: "keys_below (nextLinkIndex state) (new_Subgraph sid tt d)"
          by (rule keys_below_simps)
        have t: "False \<longrightarrow> link_pending (new_Subgraph sid tt d) state" by simp
        from "1.IH"(2) [OF lt refl ne S_subgraph refl i' d' n' k0 t]
        have m1: "nextLinkIndex state \<le> nextLinkIndex (r_state nested)"
          and k1: "keys_below (nextLinkIndex (r_state nested)) (r_chart nested)"
          by simp_all
        have k2: "keys_below (nextLinkIndex (r_state nested)) (addSubgraph (r_chart nested) chart)"
          using k1 keys_below_mono [OF kb m1] by (simp add: keys_below_simps)
        have t2: "False \<longrightarrow> link_pending (addSubgraph (r_chart nested) chart) (r_state nested)"
          by simp
        have "index \<le> Suc ?i" using skip_blank_ge [of "Suc index" lines] by simp
        note fl = flag_after_subgraph [OF n f this, of lastStatementWasLink]
        from "1.IH"(3) [OF lt refl ne S_subgraph refl i' d' n' f' c k2 t2]
        show ?thesis using m1 fl by simp
      next
        case (S_classDef names sty)
        have "parseChartBody lines (index + 1) (parse_classDef names sty chart) state stopOnEnd False = Inr r"
          using run lt ne S_classDef by (simp add: body_classDef)
        from "1.IH"(4) [OF lt refl ne S_classDef this]
        show ?thesis using kb fs S_classDef by (simp add: keys_below_simps)
      next
        case (S_classAttachment ns cls)
        have "parseChartBody lines (index + 1) (parse_classAttachment ns cls chart) state stopOnEnd False = Inr r"
          using run lt ne S_classAttachment by (simp add: body_classAttachment)
        from "1.IH"(5) [OF lt refl ne S_classAttachment this]
        show ?thesis using kb fs S_classAttachment by (simp add: keys_below_simps)
      next
        case (S_linkStyle digits sty)
        have "parseChartBody lines (index + 1)
                (fst (parse_linkStyle digits sty chart state lastStatementWasLink))
                (snd (parse_linkStyle digits sty chart state lastStatementWasLink)) stopOnEnd False = Inr r"
          using run lt ne S_linkStyle by (simp add: body_linkStyle)
        from "1.IH"(6) [OF lt refl ne S_linkStyle this]
        show ?thesis using kb fs S_linkStyle by (simp add: parse_linkStyle_keys)
      next
        case (S_link src' ty label dst)
        have "parseChartBody lines (index + 1)
                (fst (parse_link src' ty label dst chart state))
                (snd (parse_link src' ty label dst chart state)) stopOnEnd True = Inr r"
          using run lt ne S_link by (simp add: body_link)
        from "1.IH"(7) [OF lt refl ne S_link this] parse_link_keys [OF kb, of src' ty label dst]
        show ?thesis using fs S_link by simp
      next
        case (S_node node)
        have "parseChartBody lines (index + 1) (addNode node chart) state stopOnEnd False = Inr r"
          using run lt ne S_node by (simp add: body_node)
        from "1.IH"(8) [OF lt refl ne S_node this]
        show ?thesis using kb fs S_node by (simp add: keys_below_simps)
      next
        case S_unsupported
        then show ?thesis using run lt ne by (simp add: body_unsupported)
      qed
    qed
  qed
qed

lemma resolve_addLinkStyle:
  "resolve st (addLinkStyle k s ch) = addLinkStyle k s (resolve st ch)"
  by (cases ch) (simp add: resolve_def)

lemma resolve_attach_style:
  assumes "link_pending ch st"
  shows "resolve (attach_style (last (links ch)) s st) ch = style_last_link s (resolve st ch)"
proof (cases ch)
  case (Chart t d ns ls sgs cds cas pls i)
  let ?k = "last ls"
  let ?f = "\<lambda>key. the (linksByIndex st key)"
  let ?g = "\<lambda>key. the (linksByIndex (attach_style ?k s st) key)"
  have ne: "ls \<noteq> []" and others: "\<forall>key \<in> set (butlast ls) \<union> \<Union> (set_chart ` set sgs). key < ?k"
    using assms Chart by (simp_all add: link_pending_def)
  have g: "\<And>key. key \<noteq> ?k \<Longrightarrow> ?g key = ?f key" "?g ?k = (?f ?k)\<lparr>style := Some s\<rparr>"
    by (simp_all add: attach_style_def)
  have a: "map ?g (butlast ls) = map ?f (butlast ls)"
  proof (intro map_cong refl)
    fix z
    assume "z \<in> set (butlast ls)"
    then have "z < ?k" using others by auto
    then show "?g z = ?f z" using g(1) by simp
  qed
  have b: "map (map_chart ?g) sgs = map (map_chart ?f) sgs"
  proof (intro map_cong refl chart.map_cong)
    fix x z
    assume "x \<in> set sgs" and "z \<in> set_chart x"
    then have "z < ?k" using others by auto
    then show "?g z = ?f z" using g(1) by simp
  qed
  have "map ?g ls = map ?g (butlast ls @ [?k])" using ne by simp
  also have "\<dots> = map ?f (butlast ls) @ [(?f ?k)\<lparr>style := Some s\<rparr>]"
    using a g(2) by simp
  also have "\<dots> = butlast (map ?f ls) @ [(last (map ?f ls))\<lparr>style := Some s\<rparr>]"
    using ne by (simp add: map_butlast last_map)
  finally have c: "map ?g ls = butlast (map ?f ls) @ [(last (map ?f ls))\<lparr>style := Some s\<rparr>]" .
  show ?thesis
    unfolding Chart resolve_def using b c by simp
qed

lemma parse_linkStyle_attached:
  "parse_linkStyle digits sty chart state (lastStatementWasLink_at pre i False) =
     (if attached_inline pre i state (parseInt digits)
      then (chart, attach_style (parseInt digits) (StyleText (strip_semicolon (trim sty))) state)
      else (addLinkStyle (Index (parseInt digits)) (StyleText (strip_semicolon (trim sty))) chart, state))"
  by (simp add: parse_linkStyle_def attached_inline_def attach_style_def Let_def
      split: option.splits)

lemma parse_frontmatter_prefix:
  assumes fm: "parse_frontmatter pre = Inr (idx, t)" and h: "skip_blank pre idx < length pre"
  shows "parse_frontmatter (pre @ rest) = Inr (idx, t)"
proof -
  let ?ext = "pre @ rest"
  let ?h = "skip_blank pre idx"
  have idx_le: "idx \<le> ?h" by (rule skip_blank_ge)
  let ?i0 = "skip_blank pre 0"
  show ?thesis
  proof (cases "?i0 < length pre \<and> trim (pre ! ?i0) = ''---''")
    case True
    obtain j t' where f: "frontmatter_loop pre (Suc ?i0) None = (j, t')"
      by (cases "frontmatter_loop pre (Suc ?i0) None")
    have j: "j < length pre" and jt: "trim (pre ! j) = ''---''" and e: "idx = Suc j" "t = t'"
      using fm True f by (auto simp: parse_frontmatter_def Let_def split: if_splits)
    have "skip_blank ?ext 0 = ?i0" using True by (simp add: skip_blank_prefix)
    moreover have "frontmatter_loop ?ext (Suc ?i0) None = (j, t')"
      using frontmatter_loop_prefix [of pre "Suc ?i0" None rest] f j by simp
    ultimately show ?thesis
      using True j jt e by (simp add: parse_frontmatter_def Let_def nth_append)
  next
    case False
    then have e: "idx = ?i0" "t = None"
      using fm by (auto simp: parse_frontmatter_def Let_def split: if_splits)
    then have i0: "?i0 < length pre" using idx_le h by simp
    then have "skip_blank ?ext 0 = ?i0" by (simp add: skip_blank_prefix)
    then show ?thesis
      using False i0 e by (simp add: parse_frontmatter_def Let_def nth_append)
  qed
qed

lemma parse_lines_body:
  assumes fm: "parse_frontmatter pre = Inr (idx, t)" and h: "skip_blank pre idx < length pre"
    and d: "match_header (trim (pre ! skip_blank pre idx)) = Some d"
  shows "parse_lines (pre @ rest) =
     (case parseChartBody (pre @ rest) (Suc (skip_blank pre idx)) (new_Chart t d)
             \<lparr>nextLinkIndex = 0, linksByIndex = Map.empty, lastParsedLinkIndex = None\<rparr>
             False False of
        Inl e \<Rightarrow> Inl e
      | Inr result \<Rightarrow>
          if foundEndToken result then Inl UnexpectedEnd
          else Inr (resolve (r_state result) (r_chart result)))"
proof -
  have sk: "skip_blank (pre @ rest) idx = skip_blank pre idx" using h by (simp add: skip_blank_prefix)
  show ?thesis
    using parse_frontmatter_prefix [OF fm h, of rest] sk h d
    by (simp add: parse_lines_def parse_declaration_def Let_def nth_append)
qed

text \<open>
  Claim C3. Let the lines \<open>pre\<close>, read by one call of \<open>parseChartBody\<close> from line \<open>i\<close> on
  (the variable \<open>lastStatementWasLink\<close> starts as \<open>false\<close>, the links of the container
  have indices below the counter, and the counter stays below \<open>2^53\<close>), leave the
  container of the call open, and let a line \<open>linkStyle <index> <style>\<close> follow them. The call gives the
  style to the link parsed last (the entry of that link in the table gets the style,
  the container stays as it is) if the last statement before the line is a link, the
  index of the link parsed last is \<open><index>\<close> (as a Number) and that link carries no
  style; otherwise it adds the pair of index and style to the positional overrides of
  the container of the call; then it goes on with the next line. The first is the case
  exactly when the last statement before the line is a link and \<open><index>\<close> is the index
  of the last link of the container. In the containers of the result the style is on
  the last link of the container in the first case, and among its positional overrides
  in the second; so it is in the result of \<open>parseFlowchart\<close> on lines that end with the
  statement.
\<close>

theorem linkStyle_attachment:
  assumes "parseChartBody pre i c st b False = Inr r"
    and "\<not> foundEndToken r"
    and "i \<le> length pre"
    and "\<forall>key \<in> set_chart c. key < nextLinkIndex st"
    and "match_linkStyle (trim line) = Some (digits, sty)"
    and "nextLinkIndex (r_state r) < 2 ^ 53"
  shows
   "parseChartBody (pre @ [line]) i c st b False =
      Inr \<lparr>nextIndex = Suc (length pre), foundEndToken = False,
           r_chart = (if attached_inline pre i (r_state r) (parseInt digits) then r_chart r
                      else addLinkStyle (Index (parseInt digits))
                             (StyleText (strip_semicolon (trim sty))) (r_chart r)),
           r_state = (if attached_inline pre i (r_state r) (parseInt digits)
                      then attach_style (parseInt digits)
                             (StyleText (strip_semicolon (trim sty))) (r_state r)
                      else r_state r)\<rparr> \<and>
    parseChartBody (pre @ line # rest) i c st b False =
      parseChartBody (pre @ line # rest) (Suc (length pre))
        (if attached_inline pre i (r_state r) (parseInt digits) then r_chart r
         else addLinkStyle (Index (parseInt digits)) (StyleText (strip_semicolon (trim sty))) (r_chart r))
        (if attached_inline pre i (r_state r) (parseInt digits)
         then attach_style (parseInt digits) (StyleText (strip_semicolon (trim sty))) (r_state r)
         else r_state r)
        b False \<and>
    (attached_inline pre i (r_state r) (parseInt digits) \<longleftrightarrow>
       lastStatementWasLink_at pre i False \<and> links (r_chart r) \<noteq> [] \<and>
       parseInt digits = last (links (r_chart r))) \<and>
    resolve
      (if attached_inline pre i (r_state r) (parseInt digits)
       then attach_style (parseInt digits) (StyleText (strip_semicolon (trim sty))) (r_state r)
       else r_state r)
      (if attached_inline pre i (r_state r) (parseInt digits) then r_chart r
       else addLinkStyle (Index (parseInt digits)) (StyleText (strip_semicolon (trim sty))) (r_chart r)) =
      (if attached_inline pre i (r_state r) (parseInt digits)
       then style_last_link (StyleText (strip_semicolon (trim sty)))
              (resolve (r_state r) (r_chart r))
       else addLinkStyle (Index (parseInt digits)) (StyleText (strip_semicolon (trim sty)))
              (resolve (r_state r) (r_chart r))) \<and>
    (parse_frontmatter pre = Inr (idx, t) \<and> skip_blank pre idx < length pre \<and>
     match_header (trim (pre ! skip_blank pre idx)) = Some d \<and>
     i = Suc (skip_blank pre idx) \<and> c = new_Chart t d \<and> \<not> b \<and>
     st = \<lparr>nextLinkIndex = 0, linksByIndex = Map.empty, lastParsedLinkIndex = None\<rparr> \<longrightarrow>
       parse_lines pre = Inr (resolve (r_state r) (r_chart r)) \<and>
       parse_lines (pre @ [line]) =
         Inr (if attached_inline pre i (r_state r) (parseInt digits)
              then style_last_link (StyleText (strip_semicolon (trim sty)))
                     (resolve (r_state r) (r_chart r))
              else addLinkStyle (Index (parseInt digits)) (StyleText (strip_semicolon (trim sty)))
                     (resolve (r_state r) (r_chart r))))"
proof -
  define k where "k = parseInt digits"
  define s where "s = StyleText (strip_semicolon (trim sty))"
  define inl where "inl = attached_inline pre i (r_state r) k"
  define chart' where "chart' = (if inl then r_chart r else addLinkStyle (Index k) s (r_chart r))"
  define state' where "state' = (if inl then attach_style k s (r_state r) else r_state r)"
  note run = assms(1) and nf = assms(2) and le = assms(3)
  have cl: "trim line \<noteq> []" "classify (trim line) = S_linkStyle digits sty"
    using match_linkStyle_classify [OF assms(5)] by simp_all
  have pl: "parse_linkStyle digits sty (r_chart r) (r_state r) (lastStatementWasLink_at pre i False) =
            (chart', state')"
    unfolding parse_linkStyle_attached chart'_def state'_def inl_def k_def s_def by simp
  have step: "parseChartBody (pre @ line # rest') i c st b False =
              parseChartBody (pre @ line # rest') (Suc (length pre)) chart' state' b False"
    for rest'
  proof -
    let ?ext = "pre @ line # rest'"
    have lt: "length pre < length ?ext" by simp
    have at: "trim (?ext ! length pre) \<noteq> []"
      "classify (trim (?ext ! length pre)) = S_linkStyle digits sty"
      using cl by simp_all
    show ?thesis
      unfolding parseChartBody_prefix_flag [OF run nf le, of "line # rest'"]
        body_linkStyle [OF lt at] pl
      by simp
  qed
  have one: "parseChartBody (pre @ [line]) i c st b False =
      Inr \<lparr>nextIndex = Suc (length pre), foundEndToken = False, r_chart = chart', r_state = state'\<rparr>"
    unfolding step [of "[]"] by (simp add: body_exhausted)
  have kb: "keys_below (nextLinkIndex st) c" using assms(4) by (simp add: keys_below_def)
  have pend: "lastStatementWasLink_at pre i False \<Longrightarrow> link_pending (r_chart r) (r_state r)"
    using parseChartBody_links [OF run kb] nf by simp
  have iff: "inl \<longleftrightarrow> lastStatementWasLink_at pre i False \<and> links (r_chart r) \<noteq> [] \<and>
       k = last (links (r_chart r))"
  proof (cases "lastStatementWasLink_at pre i False")
    case True
    from pend [OF True] show ?thesis
      using True by (auto simp: inl_def attached_inline_def link_pending_def)
  next
    case False
    then show ?thesis by (simp add: inl_def attached_inline_def)
  qed
  have res: "resolve state' chart' =
      (if inl then style_last_link s (resolve (r_state r) (r_chart r))
       else addLinkStyle (Index k) s (resolve (r_state r) (r_chart r)))"
  proof (cases inl)
    case True
    then have f: "lastStatementWasLink_at pre i False" and e: "k = last (links (r_chart r))"
      using iff by simp_all
    show ?thesis
      using True resolve_attach_style [OF pend [OF f], of s]
      by (simp add: chart'_def state'_def e)
  next
    case False
    then show ?thesis by (simp add: chart'_def state'_def resolve_addLinkStyle)
  qed
  have doc: "parse_lines pre = Inr (resolve (r_state r) (r_chart r)) \<and>
       parse_lines (pre @ [line]) =
         Inr (if inl then style_last_link s (resolve (r_state r) (r_chart r))
              else addLinkStyle (Index k) s (resolve (r_state r) (r_chart r)))"
    if fm: "parse_frontmatter pre = Inr (idx, t)" and h: "skip_blank pre idx < length pre"
      and d: "match_header (trim (pre ! skip_blank pre idx)) = Some d"
      and i: "i = Suc (skip_blank pre idx)" and c: "c = new_Chart t d" and b: "\<not> b"
      and st: "st = \<lparr>nextLinkIndex = 0, linksByIndex = Map.empty, lastParsedLinkIndex = None\<rparr>"
  proof -
    have "parse_lines pre = Inr (resolve (r_state r) (r_chart r))"
      using parse_lines_body [OF fm h d, of "[]"] run nf b by (simp add: i c st)
    moreover have "parse_lines (pre @ [line]) = Inr (resolve state' chart')"
      using parse_lines_body [OF fm h d, of "[line]"] one b by (simp add: i c st)
    ultimately show ?thesis by (simp add: res)
  qed
  show ?thesis
    using one step [of rest] iff res doc
    unfolding chart'_def state'_def inl_def k_def s_def
    by blast
qed

definition link_example :: "string list" where
  "link_example = [''flowchart TD'', ''  a --> b'']"

definition link_example_result :: body_result where
  "link_example_result =
     \<lparr>nextIndex = 2, foundEndToken = False,
      r_chart = Chart None TD [] [0] [] [] [] [] None,
      r_state = \<lparr>nextLinkIndex = 1,
                 linksByIndex = [0 \<mapsto> \<lparr>src = Id ''a'', dest = Id ''b'', link_text = None,
                                        link_type = ARROW, style = None\<rparr>],
                 lastParsedLinkIndex = Some 0\<rparr>\<rparr>"

definition node_example :: "string list" where
  "node_example = [''flowchart TD'', ''  a --> b'', [], ''  c(see)'']"

definition node_example_result :: body_result where
  "node_example_result =
     \<lparr>nextIndex = 4, foundEndToken = False,
      r_chart = Chart None TD [\<lparr>title = ''see'', shape = RECT_ROUND, node_id = ''c'', className = None\<rparr>]
                  [0] [] [] [] [] None,
      r_state = \<lparr>nextLinkIndex = 1,
                 linksByIndex = [0 \<mapsto> \<lparr>src = Id ''a'', dest = Id ''b'', link_text = None,
                                        link_type = ARROW, style = None\<rparr>],
                 lastParsedLinkIndex = Some 0\<rparr>\<rparr>"

definition subgraph_example :: "string list" where
  "subgraph_example = [''flowchart TD'', ''  subgraph S [inner]'', ''    direction LR'', ''    x --> y'']"

definition subgraph_example_result :: body_result where
  "subgraph_example_result =
     \<lparr>nextIndex = 4, foundEndToken = False,
      r_chart = Chart (Some ''inner'') LR [] [0] [] [] [] [] (Some ''S''),
      r_state = \<lparr>nextLinkIndex = 1,
                 linksByIndex = [0 \<mapsto> \<lparr>src = Id ''x'', dest = Id ''y'', link_text = None,
                                        link_type = ARROW, style = None\<rparr>],
                 lastParsedLinkIndex = Some 0\<rparr>\<rparr>"

theorem linkStyle_attachment_witness:
  "parseChartBody link_example 1 (new_Chart None TD)
     \<lparr>nextLinkIndex = 0, linksByIndex = Map.empty, lastParsedLinkIndex = None\<rparr> False False =
     Inr link_example_result \<and>
   \<not> foundEndToken link_example_result \<and> 1 \<le> length link_example \<and>
   match_linkStyle (trim ''  linkStyle 0 color:red;'') = Some (''0'', ''color:red;'') \<and>
   nextLinkIndex (r_state link_example_result) < 2 ^ 53 \<and>
   nextLinkIndex (r_state node_example_result) < 2 ^ 53 \<and>
   parse_frontmatter link_example = Inr (0, None) \<and> skip_blank link_example 0 < length link_example \<and>
   1 = Suc (skip_blank link_example 0) \<and>
   match_header (trim (link_example ! skip_blank link_example 0)) = Some TD \<and>
   attached_inline link_example 1 (r_state link_example_result) (parseInt ''0'') \<and>
   parseChartBody (link_example @ [''  linkStyle 0 color:red;'']) 1 (new_Chart None TD)
     \<lparr>nextLinkIndex = 0, linksByIndex = Map.empty, lastParsedLinkIndex = None\<rparr> False False =
     Inr \<lparr>nextIndex = 3, foundEndToken = False,
          r_chart = Chart None TD [] [0] [] [] [] [] None,
          r_state = \<lparr>nextLinkIndex = 1,
                     linksByIndex = [0 \<mapsto> \<lparr>src = Id ''a'', dest = Id ''b'', link_text = None,
                                            link_type = ARROW,
                                            style = Some (StyleText ''color:red'')\<rparr>],
                     lastParsedLinkIndex = Some 0\<rparr>\<rparr> \<and>
   parse_lines (link_example @ [''  linkStyle 0 color:red;'']) =
     Inr (Chart None TD []
            [\<lparr>src = Id ''a'', dest = Id ''b'', link_text = None, link_type = ARROW,
              style = Some (StyleText ''color:red'')\<rparr>] [] [] [] [] None) \<and>
   parseChartBody node_example 1 (new_Chart None TD)
     \<lparr>nextLinkIndex = 0, linksByIndex = Map.empty, lastParsedLinkIndex = None\<rparr> False False =
     Inr node_example_result \<and>
   \<not> foundEndToken node_example_result \<and> 1 \<le> length node_example \<and>
   parse_frontmatter node_example = Inr (0, None) \<and> skip_blank node_example 0 < length node_example \<and>
   1 = Suc (skip_blank node_example 0) \<and>
   match_header (trim (node_example ! skip_blank node_example 0)) = Some TD \<and>
   \<not> attached_inline node_example 1 (r_state node_example_result) (parseInt ''0'') \<and>
   parse_lines (node_example @ [''  linkStyle 0 color:red;'']) =
     Inr (Chart None TD [\<lparr>title = ''see'', shape = RECT_ROUND, node_id = ''c'', className = None\<rparr>]
            [\<lparr>src = Id ''a'', dest = Id ''b'', link_text = None, link_type = ARROW,
              style = None\<rparr>] [] [] []
            [(Index 0, StyleText ''color:red'')] None) \<and>
   parseChartBody subgraph_example 3 (new_Subgraph ''S'' (Some ''inner'') LR)
     \<lparr>nextLinkIndex = 0, linksByIndex = Map.empty, lastParsedLinkIndex = None\<rparr> True False =
     Inr subgraph_example_result \<and>
   \<not> foundEndToken subgraph_example_result \<and> 3 \<le> length subgraph_example \<and>
   nextLinkIndex (r_state subgraph_example_result) < 2 ^ 53 \<and>
   attached_inline subgraph_example 3 (r_state subgraph_example_result) (parseInt ''0'') \<and>
   parseChartBody (subgraph_example @ [''  linkStyle 0 color:red;'']) 3
     (new_Subgraph ''S'' (Some ''inner'') LR)
     \<lparr>nextLinkIndex = 0, linksByIndex = Map.empty, lastParsedLinkIndex = None\<rparr> True False =
     Inr \<lparr>nextIndex = 5, foundEndToken = False,
          r_chart = Chart (Some ''inner'') LR [] [0] [] [] [] [] (Some ''S''),
          r_state = \<lparr>nextLinkIndex = 1,
                     linksByIndex = [0 \<mapsto> \<lparr>src = Id ''x'', dest = Id ''y'', link_text = None,
                                            link_type = ARROW,
                                            style = Some (StyleText ''color:red'')\<rparr>],
                     lastParsedLinkIndex = Some 0\<rparr>\<rparr>"
proof -
  let ?init = "\<lparr>nextLinkIndex = 0, linksByIndex = Map.empty, lastParsedLinkIndex = None\<rparr>"
  let ?line = "''  linkStyle 0 color:red;''"
  have f1: "1 < length link_example \<and> trim (link_example ! 1) \<noteq> [] \<and>
      classify (trim (link_example ! 1)) = S_link ''a'' ARROW None ''b'' \<and>
      \<not> Suc 1 < length link_example"
    by code_simp
  have run1: "parseChartBody link_example 1 (new_Chart None TD) ?init False False =
      Inr link_example_result"
  proof -
    have "parseChartBody link_example 1 (new_Chart None TD) ?init False False =
          parseChartBody link_example (Suc 1)
            (fst (parse_link ''a'' ARROW None ''b'' (new_Chart None TD) ?init))
            (snd (parse_link ''a'' ARROW None ''b'' (new_Chart None TD) ?init)) False True"
      using f1 by (intro body_link) simp_all
    also have "\<dots> = Inr \<lparr>nextIndex = Suc 1, foundEndToken = False,
            r_chart = fst (parse_link ''a'' ARROW None ''b'' (new_Chart None TD) ?init),
            r_state = snd (parse_link ''a'' ARROW None ''b'' (new_Chart None TD) ?init)\<rparr>"
      using f1 by (intro body_exhausted) simp
    finally show ?thesis
      by (simp add: link_example_result_def new_Chart_def parse_link_def Let_def)
  qed
  have f2: "1 < length node_example \<and> trim (node_example ! 1) \<noteq> [] \<and>
      classify (trim (node_example ! 1)) = S_link ''a'' ARROW None ''b'' \<and>
      Suc 1 < length node_example \<and> trim (node_example ! Suc 1) = [] \<and>
      Suc (Suc 1) < length node_example \<and> trim (node_example ! Suc (Suc 1)) \<noteq> [] \<and>
      classify (trim (node_example ! Suc (Suc 1))) =
        S_node \<lparr>title = ''see'', shape = RECT_ROUND, node_id = ''c'', className = None\<rparr> \<and>
      \<not> Suc (Suc (Suc 1)) < length node_example"
    by code_simp
  have run2: "parseChartBody node_example 1 (new_Chart None TD) ?init False False =
      Inr node_example_result"
  proof -
    let ?c = "fst (parse_link ''a'' ARROW None ''b'' (new_Chart None TD) ?init)"
    let ?s = "snd (parse_link ''a'' ARROW None ''b'' (new_Chart None TD) ?init)"
    let ?n = "\<lparr>title = ''see'', shape = RECT_ROUND, node_id = ''c'', className = None\<rparr>"
    have "parseChartBody node_example 1 (new_Chart None TD) ?init False False =
          parseChartBody node_example (Suc 1) ?c ?s False True"
      using f2 by (intro body_link) simp_all
    also have "\<dots> = parseChartBody node_example (Suc (Suc 1)) ?c ?s False True"
      using f2 by (intro body_blank) simp_all
    also have "\<dots> = parseChartBody node_example (Suc (Suc (Suc 1))) (addNode ?n ?c) ?s False False"
      using f2 by (intro body_node) simp_all
    also have "\<dots> = Inr \<lparr>nextIndex = Suc (Suc (Suc 1)), foundEndToken = False,
            r_chart = addNode ?n ?c, r_state = ?s\<rparr>"
      using f2 by (intro body_exhausted) simp
    finally show ?thesis
      by (simp add: node_example_result_def new_Chart_def parse_link_def Let_def)
  qed
  have f3: "3 < length subgraph_example \<and> trim (subgraph_example ! 3) \<noteq> [] \<and>
      classify (trim (subgraph_example ! 3)) = S_link ''x'' ARROW None ''y'' \<and>
      \<not> Suc 3 < length subgraph_example"
    by code_simp
  have run3: "parseChartBody subgraph_example 3 (new_Subgraph ''S'' (Some ''inner'') LR) ?init
      True False = Inr subgraph_example_result"
  proof -
    let ?c = "fst (parse_link ''x'' ARROW None ''y'' (new_Subgraph ''S'' (Some ''inner'') LR) ?init)"
    let ?s = "snd (parse_link ''x'' ARROW None ''y'' (new_Subgraph ''S'' (Some ''inner'') LR) ?init)"
    have "parseChartBody subgraph_example 3 (new_Subgraph ''S'' (Some ''inner'') LR) ?init
            True False =
          parseChartBody subgraph_example (Suc 3) ?c ?s True True"
      using f3 by (intro body_link) simp_all
    also have "\<dots> = Inr \<lparr>nextIndex = Suc 3, foundEndToken = False, r_chart = ?c, r_state = ?s\<rparr>"
      using f3 by (intro body_exhausted) simp
    finally show ?thesis
      by (simp add: subgraph_example_result_def new_Subgraph_def parse_link_def Let_def)
  qed
  have nf3: "\<not> foundEndToken subgraph_example_result"
    and le3: "3 \<le> length subgraph_example"
    and cnt3: "nextLinkIndex (r_state subgraph_example_result) < 2 ^ 53"
    by (simp_all add: subgraph_example_result_def subgraph_example_def)
  have keys3: "\<forall>key \<in> set_chart (new_Subgraph ''S'' (Some ''inner'') LR :: nat chart).
      key < nextLinkIndex ?init"
    by (simp add: new_Subgraph_def)
  have nf: "\<not> foundEndToken link_example_result" "\<not> foundEndToken node_example_result"
    by (simp_all add: link_example_result_def node_example_result_def)
  have le: "1 \<le> length link_example" "1 \<le> length node_example"
    by (simp_all add: link_example_def node_example_def)
  have keys: "\<forall>key \<in> set_chart (new_Chart None TD :: nat chart). key < nextLinkIndex ?init"
    by (simp add: new_Chart_def)
  have ml: "match_linkStyle (trim ?line) = Some (''0'', ''color:red;'')"
    by code_simp
  have h1: "parse_frontmatter link_example = Inr (0, None)"
    "skip_blank link_example 0 < length link_example"
    "match_header (trim (link_example ! skip_blank link_example 0)) = Some TD"
    "1 = Suc (skip_blank link_example 0)"
    by code_simp+
  have h2: "parse_frontmatter node_example = Inr (0, None)"
    "skip_blank node_example 0 < length node_example"
    "match_header (trim (node_example ! skip_blank node_example 0)) = Some TD"
    "1 = Suc (skip_blank node_example 0)"
    by code_simp+
  have nb: "\<not> False" by simp
  have k: "parseInt ''0'' = 0" "strip_semicolon (trim ''color:red;'') = ''color:red''"
    by code_simp+
  have fl: "lastStatementWasLink_at link_example 1 False"
    "\<not> lastStatementWasLink_at node_example 1 False"
    by code_simp+
  have a1: "attached_inline link_example 1 (r_state link_example_result) (parseInt ''0'')"
    using fl by (simp add: attached_inline_def k link_example_result_def)
  have a2: "\<not> attached_inline node_example 1 (r_state node_example_result) (parseInt ''0'')"
    using fl by (simp add: attached_inline_def)
  have fl3: "lastStatementWasLink_at subgraph_example 3 False"
    by code_simp
  have a3: "attached_inline subgraph_example 3 (r_state subgraph_example_result) (parseInt ''0'')"
    using fl3 by (simp add: attached_inline_def k subgraph_example_result_def)
  have r3: "parseChartBody (subgraph_example @ [?line]) 3 (new_Subgraph ''S'' (Some ''inner'') LR)
      ?init True False =
     Inr \<lparr>nextIndex = 5, foundEndToken = False,
          r_chart = Chart (Some ''inner'') LR [] [0] [] [] [] [] (Some ''S''),
          r_state = \<lparr>nextLinkIndex = 1,
                     linksByIndex = [0 \<mapsto> \<lparr>src = Id ''x'', dest = Id ''y'', link_text = None,
                                            link_type = ARROW,
                                            style = Some (StyleText ''color:red'')\<rparr>],
                     lastParsedLinkIndex = Some 0\<rparr>\<rparr>"
    using linkStyle_attachment [OF run3 nf3 le3 keys3 ml cnt3, THEN conjunct1] a3
    by (simp add: k attach_style_def subgraph_example_result_def subgraph_example_def)
  have cnt: "nextLinkIndex (r_state link_example_result) < 2 ^ 53"
    "nextLinkIndex (r_state node_example_result) < 2 ^ 53"
    by (simp_all add: link_example_result_def node_example_result_def)
  note t1 = linkStyle_attachment [OF run1 nf(1) le(1) keys ml cnt(1),
      where rest = "[]" and idx = 0 and t = None and d = TD]
  note t2 = linkStyle_attachment [OF run2 nf(2) le(2) keys ml cnt(2),
      where rest = "[]" and idx = 0 and t = None and d = TD]
  have r1: "parseChartBody (link_example @ [?line]) 1 (new_Chart None TD) ?init False False =
     Inr \<lparr>nextIndex = 3, foundEndToken = False,
          r_chart = Chart None TD [] [0] [] [] [] [] None,
          r_state = \<lparr>nextLinkIndex = 1,
                     linksByIndex = [0 \<mapsto> \<lparr>src = Id ''a'', dest = Id ''b'', link_text = None,
                                            link_type = ARROW,
                                            style = Some (StyleText ''color:red'')\<rparr>],
                     lastParsedLinkIndex = Some 0\<rparr>\<rparr>"
    using t1 [THEN conjunct1] a1
    by (simp add: k attach_style_def link_example_result_def link_example_def)
  have d1: "parse_lines (link_example @ [?line]) =
     Inr (Chart None TD []
            [\<lparr>src = Id ''a'', dest = Id ''b'', link_text = None, link_type = ARROW,
              style = Some (StyleText ''color:red'')\<rparr>] [] [] [] [] None)"
    using t1 [THEN conjunct2, THEN conjunct2, THEN conjunct2, THEN conjunct2, THEN mp,
        OF conjI [OF h1(1) conjI [OF h1(2) conjI [OF h1(3) conjI [OF h1(4) conjI [OF refl
          conjI [OF nb refl]]]]]]] a1
    by (simp add: k resolve_def link_example_result_def)
  have d2: "parse_lines (node_example @ [?line]) =
     Inr (Chart None TD [\<lparr>title = ''see'', shape = RECT_ROUND, node_id = ''c'', className = None\<rparr>]
            [\<lparr>src = Id ''a'', dest = Id ''b'', link_text = None, link_type = ARROW,
              style = None\<rparr>] [] [] []
            [(Index 0, StyleText ''color:red'')] None)"
    using t2 [THEN conjunct2, THEN conjunct2, THEN conjunct2, THEN conjunct2, THEN mp,
        OF conjI [OF h2(1) conjI [OF h2(2) conjI [OF h2(3) conjI [OF h2(4) conjI [OF refl
          conjI [OF nb refl]]]]]]] a2
    by (simp add: k resolve_def node_example_result_def)
  show ?thesis
    using run1 run2 run3 nf nf3 le le3 ml cnt cnt3 h1 h2 a1 a2 a3 r1 r3 d1 d2 by blast
qed

lemma no_colon_no_separator:
  "CHR '':'' \<notin> set q \<Longrightarrow> lastIndexOf '':::'' q = None"
  by (induction q) (auto simp: starts_with_def)

lemma lastIndexOf_append_no_colon:
  "CHR '':'' \<notin> set q \<Longrightarrow> lastIndexOf '':::'' s = None \<Longrightarrow> lastIndexOf '':::'' (s @ q) = None"
proof (induction s)
  case Nil
  then show ?case by (simp add: no_colon_no_separator)
next
  case (Cons c s)
  have s: "lastIndexOf '':::'' s = None" and n: "\<not> starts_with '':::'' (c # s)"
    using Cons.prems(2) by (auto split: option.splits if_splits)
  have "\<not> starts_with '':::'' (c # s @ q)"
  proof (cases s)
    case Nil
    then show ?thesis using Cons.prems(1) by (cases q) (auto simp: starts_with_def)
  next
    case (Cons d s')
    note outer = this
    show ?thesis
    proof (cases s')
      case Nil
      then show ?thesis using outer Cons.prems(1) by (cases q) (auto simp: starts_with_def)
    next
      case (Cons e s'')
      then show ?thesis using outer n by (simp add: starts_with_def)
    qed
  qed
  then show ?case using Cons.IH [OF Cons.prems(1) s] by simp
qed

lemma lastIndexOf_prepend_no_colon:
  "CHR '':'' \<notin> set p \<Longrightarrow> lastIndexOf '':::'' t = None \<Longrightarrow> lastIndexOf '':::'' (p @ t) = None"
  by (induction p) (auto simp: starts_with_def)

lemma is_id_char_not_colon: "is_id_char c \<Longrightarrow> c \<noteq> CHR '':''"
  by (auto simp: is_id_char_def is_alnum_def)

lemma takeWhile_id_prefix:
  "list_all is_id_char ident \<Longrightarrow> \<not> is_id_char c \<Longrightarrow>
   takeWhile is_id_char (ident @ c # r) = ident"
  by (induction ident) simp_all

lemma match_delimiters_exact:
  "match_delimiters opening closing (opening @ s @ closing) = Some s"
  by (simp add: match_delimiters_def starts_with_def ends_with_def)

lemma match_id_prefix:
  assumes "ident \<noteq> []" and "list_all is_id_char ident" and "rest \<noteq> []"
    and "\<not> is_id_char (hd rest)" and "no_line_terminator rest"
  shows "match_id (ident @ rest) = Some (ident, rest)"
proof -
  obtain c r where r: "rest = c # r" using assms(3) by (cases rest) auto
  have "takeWhile is_id_char (ident @ rest) = ident"
    using takeWhile_id_prefix [OF assms(2), of c r] assms(4) r by simp
  then show ?thesis
    using assms(1,3,5) by (simp add: match_id_def Let_def)
qed

definition tidy :: "string \<Rightarrow> bool" where
  "tidy s = (s \<noteq> [] \<and> \<not> is_ws (hd s) \<and> \<not> is_ws (last s))"

lemma no_line_terminator_iff: "no_line_terminator s \<longleftrightarrow> (\<forall>c \<in> set s. \<not> is_line_terminator c)"
  by (simp add: no_line_terminator_def filter_empty_conv)

lemma line_terminator_is_ws: "is_line_terminator c \<Longrightarrow> is_ws c"
  by (auto simp: is_line_terminator_def is_ws_def)

lemma no_line_terminator_append:
  "no_line_terminator (a @ b) \<longleftrightarrow> no_line_terminator a \<and> no_line_terminator b"
  by (auto simp: no_line_terminator_iff)

lemma trim_tidy: "tidy s \<Longrightarrow> trim s = s"
proof -
  assume t: "tidy s"
  then obtain c r where s: "s = c # r" and c: "\<not> is_ws c" by (cases s) (auto simp: tidy_def)
  have d: "dropWhile is_ws s = s" using s c by simp
  have "rev s \<noteq> []" "\<not> is_ws (hd (rev s))"
    using t by (auto simp: tidy_def hd_rev)
  then have "dropWhile is_ws (rev s) = rev s" by (cases "rev s") auto
  then show ?thesis by (simp add: trim_def d)
qed

lemma takeWhile_all: "list_all P xs \<Longrightarrow> takeWhile P (xs @ ys) = xs @ takeWhile P ys"
  by (induction xs) simp_all

lemma split_char_no_sep: "d \<notin> set s \<Longrightarrow> split_char d s = [s]"
  by (induction s) auto

lemma split_char_append_sep:
  "d \<notin> set a \<Longrightarrow> split_char d (a @ d # s) = a # split_char d s"
  by (induction a) (auto split: list.splits)

lemma replace_crlf_id: "CHR 0x0D \<notin> set s \<Longrightarrow> replace_crlf s = s"
  by (induction s rule: replace_crlf.induct) auto

definition first_token :: "string \<Rightarrow> string" where
  "first_token line = takeWhile (\<lambda>c. \<not> is_ws c) line"

lemma space_ws: "is_ws (CHR '' '')"
  by (simp add: is_ws_def)

lemma skip_ws1_Some: "skip_ws1 s = Some r \<Longrightarrow> \<exists>w t. s = w # t \<and> is_ws w \<and> r = dropWhile is_ws t"
  by (cases s) (auto simp: skip_ws1_def split: if_splits)

lemma skip_ws1_space: "skip_ws1 (CHR '' '' # s) = Some (dropWhile is_ws s)"
  by (simp add: skip_ws1_def space_ws)

lemma match_subgraph_token:
  assumes "match_subgraph line \<noteq> None"
  shows "first_token line = ''subgraph''"
proof -
  have s: "starts_with ''subgraph'' line"
    using assms by (simp add: match_subgraph_def split: if_splits)
  then obtain r where r: "line = ''subgraph'' @ r" using starts_with_append by blast
  have "skip_ws1 (drop 8 line) \<noteq> None"
    using assms s by (auto simp: match_subgraph_def split: option.splits)
  then have "skip_ws1 r \<noteq> None" by (simp add: r)
  then obtain w t where "r = w # t" "is_ws w" using skip_ws1_Some [of r] by auto
  then show ?thesis by (simp add: r first_token_def is_ws_def)
qed

lemma match_subgraph_other: "first_token line \<noteq> ''subgraph'' \<Longrightarrow> match_subgraph line = None"
  using match_subgraph_token by blast

lemma match_classDef_token:
  assumes "match_classDef line \<noteq> None"
  shows "first_token line = ''classDef''"
proof -
  have s: "starts_with ''classDef'' line"
    using assms by (simp add: match_classDef_def split: if_splits)
  then obtain r where r: "line = ''classDef'' @ r" using starts_with_append by blast
  have "skip_ws1 (drop 8 line) \<noteq> None"
    using assms s by (auto simp: match_classDef_def split: option.splits)
  then have "skip_ws1 r \<noteq> None" by (simp add: r)
  then obtain w t where "r = w # t" "is_ws w" using skip_ws1_Some [of r] by auto
  then show ?thesis by (simp add: r first_token_def is_ws_def)
qed

lemma match_classDef_other: "first_token line \<noteq> ''classDef'' \<Longrightarrow> match_classDef line = None"
  using match_classDef_token by blast

lemma match_classAttachment_token:
  assumes "match_classAttachment line \<noteq> None"
  shows "first_token line = ''class''"
proof -
  have s: "starts_with ''class'' line"
    using assms by (simp add: match_classAttachment_def split: if_splits)
  then obtain r where r: "line = ''class'' @ r" using starts_with_append by blast
  have "skip_ws1 (drop 5 line) \<noteq> None"
    using assms s by (auto simp: match_classAttachment_def split: option.splits)
  then have "skip_ws1 r \<noteq> None" by (simp add: r)
  then obtain w t where "r = w # t" "is_ws w" using skip_ws1_Some [of r] by auto
  then show ?thesis by (simp add: r first_token_def is_ws_def)
qed

lemma match_classAttachment_other: "first_token line \<noteq> ''class'' \<Longrightarrow> match_classAttachment line = None"
  using match_classAttachment_token by blast

lemma match_linkStyle_token:
  assumes "match_linkStyle line \<noteq> None"
  shows "first_token line = ''linkStyle''"
proof -
  have s: "starts_with ''linkStyle'' line"
    using assms by (simp add: match_linkStyle_def split: if_splits)
  then obtain r where r: "line = ''linkStyle'' @ r" using starts_with_append by blast
  have "skip_ws1 (drop 9 line) \<noteq> None"
    using assms s by (auto simp: match_linkStyle_def split: option.splits)
  then have "skip_ws1 r \<noteq> None" by (simp add: r)
  then obtain w t where "r = w # t" "is_ws w" using skip_ws1_Some [of r] by auto
  then show ?thesis by (simp add: r first_token_def is_ws_def)
qed

lemma match_linkStyle_other: "first_token line \<noteq> ''linkStyle'' \<Longrightarrow> match_linkStyle line = None"
  using match_linkStyle_token by blast

definition statement_keywords :: "string list" where
  "statement_keywords = [''subgraph'', ''classDef'', ''class'', ''linkStyle'']"

lemma no_keyword:
  assumes "first_token line \<notin> set statement_keywords"
  shows "match_subgraph line = None \<and> match_classDef line = None \<and>
         match_classAttachment line = None \<and> match_linkStyle line = None"
  using assms match_subgraph_other [of line] match_classDef_other [of line]
    match_classAttachment_other [of line] match_linkStyle_other [of line]
  by (simp add: statement_keywords_def)

lemma ChartDir_str_match: "match_dir (ChartDir_str d) = Some d"
  by (cases d) (simp_all add: match_dir_def)

lemma match_header_printed: "match_header (''flowchart '' @ ChartDir_str d) = Some d"
proof -
  have "dropWhile is_ws (ChartDir_str d) = ChartDir_str d"
    by (cases d) (simp_all add: is_ws_def)
  then show ?thesis
    by (simp add: match_header_def match_keyword_dir_def starts_with_def ChartDir_str_match
        skip_ws1_space)
qed

lemma is_id_char_not_ws: "is_id_char c \<Longrightarrow> \<not> is_ws c"
  by (auto simp: is_id_char_def is_alnum_def is_ws_def)

lemma keywords_id_chars: "kw \<in> set statement_keywords \<Longrightarrow> list_all is_id_char kw"
  by (auto simp: statement_keywords_def is_id_char_def is_alnum_def)

lemma token_not_keyword:
  assumes "list_all is_id_char ident" and "\<not> is_id_char c" and "\<not> is_ws c"
  shows "first_token (ident @ c # r) \<notin> set statement_keywords" and "ident @ c # r \<noteq> ''end''"
proof -
  have "list_all (\<lambda>c. \<not> is_ws c) ident"
    using assms(1) is_id_char_not_ws by (auto simp: list_all_iff)
  then have "first_token (ident @ c # r) = ident @ c # takeWhile (\<lambda>c. \<not> is_ws c) r"
    using assms(3) by (simp add: first_token_def takeWhile_all)
  then have "c \<in> set (first_token (ident @ c # r))" by simp
  then show "first_token (ident @ c # r) \<notin> set statement_keywords"
    using keywords_id_chars assms(2) by (auto simp: list_all_iff)
  have "list_all is_id_char ''end''" by (simp add: is_id_char_def is_alnum_def)
  moreover have "c \<in> set (ident @ c # r)" by simp
  ultimately show "ident @ c # r \<noteq> ''end''"
    using assms(2) by (metis list_all_iff)
qed

text \<open>
  The identifier, the label token and the class of a node statement: what
  \<open>parseNodeLine\<close> has when it enters the loop over the shapes.
\<close>

definition node_tokens :: "string \<Rightarrow> (string \<times> string \<times> string option) option" where
  "node_tokens line =
     (case (case lastIndexOf '':::'' line of
              None \<Rightarrow> Some (line, None)
            | Some classSeparator \<Rightarrow>
                (let cls = trim (drop (classSeparator + 3) line)
                 in if cls = [] then None else Some (take classSeparator line, Some cls)))
      of
        None \<Rightarrow> None
      | Some (nodeContent, cls) \<Rightarrow>
          (case match_id nodeContent of
             None \<Rightarrow> None
           | Some (ident, rest) \<Rightarrow> Some (ident, rest, cls)))"

lemma parseNodeLine_tokens:
  "parseNodeLine line =
     (case node_tokens line of
        None \<Rightarrow> None
      | Some (ident, rest, cls) \<Rightarrow> match_shapes shapeCandidates rest ident cls)"
  by (simp add: parseNodeLine_def node_tokens_def split: option.splits)

lemma match_shapes_first:
  "match_shapes cs rest ident cls =
     (case find (\<lambda>(sh, ob, cb). match_delimiters ob cb rest \<noteq> None) cs of
        None \<Rightarrow> None
      | Some (sh, ob, cb) \<Rightarrow>
          Some \<lparr>title = the (match_delimiters ob cb rest), shape = sh, node_id = ident,
                className = cls\<rparr>)"
  by (induction cs rest ident cls rule: match_shapes.induct) (auto split: option.splits)

lemma hexagon_first:
  "match_shapes shapeCandidates (''{{'' @ s @ ''}}'') ident cls =
     Some \<lparr>title = s, shape = HEXAGON, node_id = ident, className = cls\<rparr>"
proof -
  have "match_delimiters ''{{'' ''}}'' (''{{'' @ s @ ''}}'') = Some s"
    by (rule match_delimiters_exact)
  then show ?thesis by (simp add: shapeCandidates_def)
qed

lemma classify_node_statement:
  assumes "line \<noteq> ''end''" and "match_subgraph line = None" and "match_classDef line = None"
    and "match_classAttachment line = None" and "match_linkStyle line = None"
    and "match_link line = None" and "parseNodeLine line = Some node"
  shows "classify line = S_node node"
  using assms by (simp add: classify_def)

lemma trim_literal: "trim ''flowchart TD'' = ''flowchart TD''"
  by (simp add: trim_def is_ws_def)

lemma single_node_document:
  assumes t: "trim line = line" "line \<noteq> []" and nl: "no_line_terminator line"
    and c: "classify line = S_node node"
  shows "parseFlowchart (''flowchart TD'' @ [CHR 0x0A] @ line) = Inr (addNode node (new_Chart None TD))"
proof -
  define lines where "lines = [''flowchart TD'', line]"
  define st0 where "st0 = \<lparr>nextLinkIndex = 0, linksByIndex = Map.empty, lastParsedLinkIndex = None\<rparr>"
  have cr: "CHR 0x0D \<notin> set line" "CHR 0x0A \<notin> set line"
    using nl by (auto simp: no_line_terminator_iff is_line_terminator_def)
  have "replace_crlf (''flowchart TD'' @ [CHR 0x0A] @ line) = ''flowchart TD'' @ [CHR 0x0A] @ line"
    using cr(1) by (intro replace_crlf_id) simp
  moreover have "split_char (CHR 0x0A) (''flowchart TD'' @ CHR 0x0A # line) = ''flowchart TD'' # split_char (CHR 0x0A) line"
    by (intro split_char_append_sep) simp
  ultimately have sp: "split_char (CHR 0x0A) (replace_crlf (''flowchart TD'' @ [CHR 0x0A] @ line)) = lines"
    using cr(2) by (simp add: split_char_no_sep lines_def)
  have l0: "lines ! 0 = ''flowchart TD''" and l1: "lines ! 1 = line" and len: "length lines = 2"
    by (simp_all add: lines_def)
  have sb: "skip_blank lines 0 = 0"
    by (rule skip_blank_stop) (simp add: l0 trim_literal)
  have fm: "parse_frontmatter lines = Inr (0, None)"
    by (simp add: parse_frontmatter_def sb l0 trim_literal Let_def)
  have mh: "match_header ''flowchart TD'' = Some TD"
    using match_header_printed [of TD] by simp
  have b1: "parseChartBody lines (Suc 0) (new_Chart None TD) st0 False False =
            parseChartBody lines (Suc (Suc 0)) (addNode node (new_Chart None TD)) st0 False False"
    by (rule body_node) (simp_all add: len l1 [simplified] t c)
  have b2: "parseChartBody lines (Suc (Suc 0)) (addNode node (new_Chart None TD)) st0 False False =
            Inr \<lparr>nextIndex = Suc (Suc 0), foundEndToken = False,
                 r_chart = addNode node (new_Chart None TD), r_state = st0\<rparr>"
    by (rule body_exhausted) (simp add: len)
  have rs: "resolve st0 (addNode node (new_Chart None TD)) = addNode node (new_Chart None TD)"
    by (simp add: resolve_def new_Chart_def)
  have "parse_declaration lines 0 None = Inr (addNode node (new_Chart None TD))"
    using b1 b2 by (simp add: parse_declaration_def sb len l0 trim_literal mh Let_def rs
        st0_def [symmetric])
  then show ?thesis
    by (simp add: parseFlowchart_def sp [simplified] parse_lines_def fm)
qed

text \<open>
  Claim C5. The loop over the shapes takes the first whose delimiters enclose the label
  token, and the double brace comes first, before the single brace: for every label
  \<open>s\<close>, with closing braces in it or not, the label token \<open>{{s}}\<close> gives the hexagon with
  the label \<open>s\<close>. So does every node statement with this label token, with a class
  suffix or without: \<open>parseNodeLine\<close>, the statement that no earlier expression of
  \<open>parseChartBody\<close> matches, the last line of a body, and the document
  \<open>flowchart TD\<close>, \<open><id>{{s}}\<close>.
\<close>

theorem hexagon_priority:
  "match_shapes shapeCandidates (''{{'' @ s @ ''}}'') ident cls =
     Some \<lparr>title = s, shape = HEXAGON, node_id = ident, className = cls\<rparr> \<and>
   map fst shapeCandidates =
     [HEXAGON, CIRCLE, SUBROUTINE, CYLINDER, STADIUM, RHOMBUS, RECT_ROUND, ASSYMETRIC] \<and>
   match_shapes cs rest ident' cls' =
     (case find (\<lambda>(sh, ob, cb). match_delimiters ob cb rest \<noteq> None) cs of
        None \<Rightarrow> None
      | Some (sh, ob, cb) \<Rightarrow>
          Some \<lparr>title = the (match_delimiters ob cb rest), shape = sh, node_id = ident',
                className = cls'\<rparr>) \<and>
   (node_tokens line = Some (ident, ''{{'' @ s @ ''}}'', cls) \<longrightarrow>
      parseNodeLine line =
        Some \<lparr>title = s, shape = HEXAGON, node_id = ident, className = cls\<rparr> \<and>
      (line \<noteq> ''end'' \<and> match_subgraph line = None \<and> match_classDef line = None \<and>
       match_classAttachment line = None \<and> match_linkStyle line = None \<and>
       match_link line = None \<longrightarrow>
         classify line =
           S_node \<lparr>title = s, shape = HEXAGON, node_id = ident, className = cls\<rparr>)) \<and>
   (index < length lines \<and> Suc index = length lines \<and> trim (lines ! index) \<noteq> [] \<and>
    (\<exists>node. classify (trim (lines ! index)) = S_node node) \<and>
    node_tokens (trim (lines ! index)) = Some (ident, ''{{'' @ s @ ''}}'', cls) \<longrightarrow>
      parseChartBody lines index chart state stopOnEnd lastStatementWasLink =
        Inr \<lparr>nextIndex = Suc index, foundEndToken = False,
             r_chart = addNode \<lparr>title = s, shape = HEXAGON, node_id = ident, className = cls\<rparr> chart,
             r_state = state\<rparr>) \<and>
   (ident \<noteq> [] \<and> list_all is_id_char ident \<and> no_line_terminator s \<and>
    lastIndexOf '':::'' s = None \<and> match_link (ident @ ''{{'' @ s @ ''}}'') = None \<longrightarrow>
      parseFlowchart (''flowchart TD'' @ [CHR 0x0A] @ ident @ ''{{'' @ s @ ''}}'') =
        Inr (addNode \<lparr>title = s, shape = HEXAGON, node_id = ident, className = None\<rparr>
              (new_Chart None TD)))"
proof (intro conjI impI)
  show "match_shapes shapeCandidates (''{{'' @ s @ ''}}'') ident cls =
     Some \<lparr>title = s, shape = HEXAGON, node_id = ident, className = cls\<rparr>"
    by (rule hexagon_first)
  show "map fst shapeCandidates =
     [HEXAGON, CIRCLE, SUBROUTINE, CYLINDER, STADIUM, RHOMBUS, RECT_ROUND, ASSYMETRIC]"
    by (simp add: shapeCandidates_def)
  show "match_shapes cs rest ident' cls' =
     (case find (\<lambda>(sh, ob, cb). match_delimiters ob cb rest \<noteq> None) cs of
        None \<Rightarrow> None
      | Some (sh, ob, cb) \<Rightarrow>
          Some \<lparr>title = the (match_delimiters ob cb rest), shape = sh, node_id = ident',
                className = cls'\<rparr>)"
    by (rule match_shapes_first)
next
  assume a: "node_tokens line = Some (ident, ''{{'' @ s @ ''}}'', cls)"
  show p: "parseNodeLine line =
        Some \<lparr>title = s, shape = HEXAGON, node_id = ident, className = cls\<rparr>"
    unfolding parseNodeLine_tokens a using hexagon_first [of s ident cls] by simp
  assume "line \<noteq> ''end'' \<and> match_subgraph line = None \<and> match_classDef line = None \<and>
       match_classAttachment line = None \<and> match_linkStyle line = None \<and>
       match_link line = None"
  then show "classify line =
           S_node \<lparr>title = s, shape = HEXAGON, node_id = ident, className = cls\<rparr>"
    using p by (intro classify_node_statement) simp_all
next
  assume a: "index < length lines \<and> Suc index = length lines \<and> trim (lines ! index) \<noteq> [] \<and>
    (\<exists>node. classify (trim (lines ! index)) = S_node node) \<and>
    node_tokens (trim (lines ! index)) = Some (ident, ''{{'' @ s @ ''}}'', cls)"
  then obtain node where n: "classify (trim (lines ! index)) = S_node node" by blast
  have "parseNodeLine (trim (lines ! index)) = Some node"
    using n by (auto simp: classify_def split: if_splits option.splits)
  moreover have "parseNodeLine (trim (lines ! index)) =
        Some \<lparr>title = s, shape = HEXAGON, node_id = ident, className = cls\<rparr>"
    unfolding parseNodeLine_tokens using a hexagon_first [of s ident cls] by simp
  ultimately have e: "node = \<lparr>title = s, shape = HEXAGON, node_id = ident, className = cls\<rparr>"
    by simp
  have "parseChartBody lines index chart state stopOnEnd lastStatementWasLink =
        parseChartBody lines (Suc index) (addNode node chart) state stopOnEnd False"
    using a n by (intro body_node) simp_all
  also have "\<dots> = Inr \<lparr>nextIndex = Suc index, foundEndToken = False,
             r_chart = addNode node chart, r_state = state\<rparr>"
    using a by (intro body_exhausted) simp
  finally show "parseChartBody lines index chart state stopOnEnd lastStatementWasLink =
        Inr \<lparr>nextIndex = Suc index, foundEndToken = False,
             r_chart = addNode \<lparr>title = s, shape = HEXAGON, node_id = ident, className = cls\<rparr> chart,
             r_state = state\<rparr>"
    by (simp add: e)
next
  assume a: "ident \<noteq> [] \<and> list_all is_id_char ident \<and> no_line_terminator s \<and>
    lastIndexOf '':::'' s = None \<and> match_link (ident @ ''{{'' @ s @ ''}}'') = None"
  define rest where "rest = ''{{'' @ s @ ''}}''"
  define line where "line = ident @ rest"
  have i: "ident \<noteq> []" "list_all is_id_char ident" and ml: "match_link line = None"
    using a by (simp_all add: line_def rest_def)
  have "lastIndexOf '':::'' (s @ ''}}'') = None"
    using a by (intro lastIndexOf_append_no_colon) simp_all
  then have "lastIndexOf '':::'' rest = None"
    using lastIndexOf_prepend_no_colon [of "''{{''" "s @ ''}}''"] by (simp add: rest_def)
  moreover have "CHR '':'' \<notin> set ident"
    using i(2) is_id_char_not_colon by (auto simp: list_all_iff)
  ultimately have sep: "lastIndexOf '':::'' line = None"
    unfolding line_def by (rule lastIndexOf_prepend_no_colon [rotated])
  have nt: "no_line_terminator rest"
    using a by (simp add: rest_def no_line_terminator_def is_line_terminator_def)
  have r: "rest \<noteq> []" "\<not> is_id_char (hd rest)"
    by (simp_all add: rest_def is_id_char_def is_alnum_def)
  have mid: "match_id line = Some (ident, rest)"
    unfolding line_def using i r nt by (rule match_id_prefix)
  have tk: "node_tokens line = Some (ident, rest, None)"
    by (simp add: node_tokens_def sep mid)
  have p: "parseNodeLine line =
        Some \<lparr>title = s, shape = HEXAGON, node_id = ident, className = None\<rparr>"
    unfolding parseNodeLine_tokens tk using hexagon_first [of s ident None] by (simp add: rest_def)
  obtain c r' where cr: "rest = c # r'" "\<not> is_id_char c" "\<not> is_ws c"
    by (simp add: rest_def is_id_char_def is_alnum_def is_ws_def)
  have k: "first_token line \<notin> set statement_keywords" "line \<noteq> ''end''"
    using token_not_keyword [OF i(2) cr(2,3), of r'] by (simp_all add: line_def cr(1))
  have cl: "classify line = S_node \<lparr>title = s, shape = HEXAGON, node_id = ident, className = None\<rparr>"
    using k(2) ml p no_keyword [OF k(1)] by (intro classify_node_statement) simp_all
  have "\<not> is_ws (hd ident)" using i is_id_char_not_ws by (cases ident) auto
  then have "tidy line" using i(1) by (simp add: tidy_def line_def rest_def is_ws_def)
  then have t: "trim line = line" "line \<noteq> []" by (simp_all add: trim_tidy tidy_def)
  have "no_line_terminator ident"
    using i(2) is_id_char_not_ws line_terminator_is_ws
    by (auto simp: no_line_terminator_iff list_all_iff)
  then have nl: "no_line_terminator line"
    using nt by (simp add: line_def no_line_terminator_append)
  have "parseFlowchart (''flowchart TD'' @ [CHR 0x0A] @ line) =
        Inr (addNode \<lparr>title = s, shape = HEXAGON, node_id = ident, className = None\<rparr>
              (new_Chart None TD))"
    using t nl cl by (rule single_node_document)
  then show "parseFlowchart (''flowchart TD'' @ [CHR 0x0A] @ ident @ ''{{'' @ s @ ''}}'') =
        Inr (addNode \<lparr>title = s, shape = HEXAGON, node_id = ident, className = None\<rparr>
              (new_Chart None TD))"
    by (simp add: line_def rest_def)
qed

theorem hexagon_priority_witness:
  "node_tokens ''n1{{a}b}}c}}:::big'' = Some (''n1'', ''{{'' @ ''a}b}}c'' @ ''}}'', Some ''big'') \<and>
   parseNodeLine ''n1{{a}b}}c}}:::big'' =
     Some \<lparr>title = ''a}b}}c'', shape = HEXAGON, node_id = ''n1'', className = Some ''big''\<rparr> \<and>
   classify ''n1{{a}b}}c}}:::big'' =
     S_node \<lparr>title = ''a}b}}c'', shape = HEXAGON, node_id = ''n1'', className = Some ''big''\<rparr> \<and>
   parseChartBody [''flowchart TD'', ''  n1{{a}b}}c}}:::big ''] 1 (new_Chart None TD)
       \<lparr>nextLinkIndex = 0, linksByIndex = Map.empty, lastParsedLinkIndex = None\<rparr> False False =
     Inr \<lparr>nextIndex = 2, foundEndToken = False,
          r_chart = addNode \<lparr>title = ''a}b}}c'', shape = HEXAGON, node_id = ''n1'',
                             className = Some ''big''\<rparr> (new_Chart None TD),
          r_state = \<lparr>nextLinkIndex = 0, linksByIndex = Map.empty, lastParsedLinkIndex = None\<rparr>\<rparr> \<and>
   parseFlowchart (''flowchart TD'' @ [CHR 0x0A] @ ''n1'' @ ''{{'' @ ''a}b}}c'' @ ''}}'') =
     Inr (addNode \<lparr>title = ''a}b}}c'', shape = HEXAGON, node_id = ''n1'', className = None\<rparr>
           (new_Chart None TD))"
proof -
  define line where "line = ''n1{{a}b}}c}}:::big''"
  define lines where "lines = [''flowchart TD'', ''  n1{{a}b}}c}}:::big '']"
  have tk: "node_tokens line = Some (''n1'', ''{{'' @ ''a}b}}c'' @ ''}}'', Some ''big'')"
    unfolding line_def by code_simp
  have ms: "line \<noteq> ''end'' \<and> match_subgraph line = None \<and> match_classDef line = None \<and>
       match_classAttachment line = None \<and> match_linkStyle line = None \<and> match_link line = None"
    unfolding line_def by code_simp
  have tr: "trim (lines ! 1) = line" unfolding lines_def line_def by code_simp
  have h1: "list_all is_id_char ''n1''" by code_simp
  have h2: "no_line_terminator ''a}b}}c''" by code_simp
  have h3: "lastIndexOf '':::'' ''a}b}}c'' = None" by (simp add: starts_with_def)
  have h4: "match_link (''n1'' @ ''{{'' @ ''a}b}}c'' @ ''}}'') = None" by code_simp
  note th = hexagon_priority [of "''a}b}}c''" "''n1''" "Some ''big''" "[]" "[]" "[]" None line 1 lines
      "new_Chart None TD" "\<lparr>nextLinkIndex = 0, linksByIndex = Map.empty, lastParsedLinkIndex = None\<rparr>"
      False False]
  note t4 = th [THEN conjunct2, THEN conjunct2, THEN conjunct2, THEN conjunct1, rule_format, OF tk]
  note t5 = th [THEN conjunct2, THEN conjunct2, THEN conjunct2, THEN conjunct2, THEN conjunct1,
      rule_format]
  have p: "parseNodeLine line =
     Some \<lparr>title = ''a}b}}c'', shape = HEXAGON, node_id = ''n1'', className = Some ''big''\<rparr>"
    using t4 by simp
  have c: "classify line =
     S_node \<lparr>title = ''a}b}}c'', shape = HEXAGON, node_id = ''n1'', className = Some ''big''\<rparr>"
    using t4 ms by simp
  have len: "(1::nat) < length lines" "Suc 1 = length lines" by (simp_all add: lines_def)
  have ne: "trim (lines ! 1) \<noteq> []" unfolding tr by (simp add: line_def)
  have ex: "\<exists>node. classify (trim (lines ! 1)) = S_node node" unfolding tr using c by blast
  have tk': "node_tokens (trim (lines ! 1)) = Some (''n1'', ''{{'' @ ''a}b}}c'' @ ''}}'', Some ''big'')"
    unfolding tr using tk .
  have b: "parseChartBody lines 1 (new_Chart None TD)
       \<lparr>nextLinkIndex = 0, linksByIndex = Map.empty, lastParsedLinkIndex = None\<rparr> False False =
     Inr \<lparr>nextIndex = Suc 1, foundEndToken = False,
          r_chart = addNode \<lparr>title = ''a}b}}c'', shape = HEXAGON, node_id = ''n1'',
                             className = Some ''big''\<rparr> (new_Chart None TD),
          r_state = \<lparr>nextLinkIndex = 0, linksByIndex = Map.empty, lastParsedLinkIndex = None\<rparr>\<rparr>"
    using t5 len ne ex tk' by blast
  have d: "parseFlowchart (''flowchart TD'' @ [CHR 0x0A] @ ''n1'' @ ''{{'' @ ''a}b}}c'' @ ''}}'') =
     Inr (addNode \<lparr>title = ''a}b}}c'', shape = HEXAGON, node_id = ''n1'', className = None\<rparr>
           (new_Chart None TD))"
  proof -
    have pre: "''n1'' \<noteq> [] \<and> list_all is_id_char ''n1'' \<and> no_line_terminator ''a}b}}c'' \<and>
      lastIndexOf '':::'' ''a}b}}c'' = None \<and> match_link (''n1'' @ ''{{'' @ ''a}b}}c'' @ ''}}'') = None"
      using h1 h2 h3 h4 by blast
    show ?thesis
      using th [THEN conjunct2, THEN conjunct2, THEN conjunct2, THEN conjunct2, THEN conjunct2] pre
      by (rule mp)
  qed
  show ?thesis
    using tk p c b d unfolding line_def lines_def by simp
qed

text \<open>
  Identifiers are printed as they are. A link from a node named \<open>class\<close> prints as the
  line \<open>class --> b\<close>, which the parser reads as a class attachment; the text of the
  parsed tree has the line \<open>class --> b;\<close>.
\<close>

definition class_link_example :: "Link chart" where
  "class_link_example =
     Chart None TD []
       [\<lparr>src = Id ''class'', dest = Id ''b'', link_text = None, link_type = ARROW, style = None\<rparr>]
       [] [] [] [] None"

lemma class_link_round_trip:
  "Chart_toString (\<lambda>_. 0) class_link_example =
     ''flowchart TD'' @ [CHR 0x0A] @ ''  class --> b'' @ [CHR 0x0A] \<and>
   parseFlowchart (Chart_toString (\<lambda>_. 0) class_link_example) =
     Inr (Chart None TD [] [] [] [] [\<lparr>ca_nodes = OneId ''-->'', ca_className = ''b''\<rparr>] [] None) \<and>
   Chart_toString (\<lambda>_. 0)
     (Chart None TD [] [] [] [] [\<lparr>ca_nodes = OneId ''-->'', ca_className = ''b''\<rparr>] [] None) =
     ''flowchart TD'' @ [CHR 0x0A] @ ''  class --> b;'' @ [CHR 0x0A]"
  by code_simp

end
